(* ===== verification/Prelude.thy ===== *)
theory Prelude
  imports Main
begin

text \<open>
  Shared vocabulary of the development. JavaScript values that cross the
  HTTP boundary are JSON values (\<open>jval\<close>); a JavaScript object is an
  insertion-ordered list of own properties (\<open>fields\<close>). The helpers below
  are the JavaScript built-ins the sources call (property read and write,
  truthiness, object spread, \<open>String.prototype.split\<close> and \<open>replace\<close>,
  assignment into a sparse array), each written as the language defines it,
  with the lemmas the component theories share.
\<close>

named_theorems handler_defs "definitions of request handlers unfolded in functional proofs"
named_theorems field_simps_js "rewrite rules for JavaScript object property access"

section \<open>JSON values and JavaScript objects\<close>

text \<open>JSON numbers are integers here: every number the program reads or
  writes is one (the lookup's \<open>status\<close>, the \<open>quantity\<close> it sets); form
  inputs, prices included, are strings.\<close>

datatype jval =
    JNull
  | JBool bool
  | JNum int
  | JStr string
  | JArr "jval list"
  | JObj "(string \<times> jval) list"

type_synonym fields = "(string \<times> jval) list"
type_synonym url = string
type_synonym filepath = string

text \<open>Property read \<open>o.k\<close>: \<open>None\<close> is JavaScript's \<open>undefined\<close>.\<close>

definition jget :: "fields \<Rightarrow> string \<Rightarrow> jval option" where
  "jget fs k = map_of fs k"

text \<open>Property write \<open>o.k = v\<close>: an existing key keeps its position, a new
  key is appended (JavaScript's property order).\<close>

primrec jput :: "string \<Rightarrow> jval \<Rightarrow> fields \<Rightarrow> fields" where
  "jput k v [] = [(k, v)]"
| "jput k v (p # ps) = (if fst p = k then (k, v) # ps else p # jput k v ps)"

text \<open>Several writes in order, as \<open>Object.assign(o, u)\<close> or a \<open>$set\<close> of each key of \<open>u\<close>.\<close>

definition jmerge :: "fields \<Rightarrow> fields \<Rightarrow> fields" where
  "jmerge fs upd = foldl (\<lambda>acc (k, v). jput k v acc) fs upd"

definition keys :: "fields \<Rightarrow> string list" where
  "keys fs = map fst fs"

text \<open>Truthiness of a possibly undefined value (\<open>if (x)\<close>, \<open>!x\<close>, \<open>x || d\<close>).\<close>

fun truthy :: "jval option \<Rightarrow> bool" where
  "truthy None = False"
| "truthy (Some JNull) = False"
| "truthy (Some (JBool b)) = b"
| "truthy (Some (JNum n)) = (n \<noteq> 0)"
| "truthy (Some (JStr s)) = (s \<noteq> [])"
| "truthy (Some (JArr _)) = True"
| "truthy (Some (JObj _)) = True"

text \<open>Decimal rendering of an index, for the keys of a spread string or array.\<close>

fun nat_str :: "nat \<Rightarrow> string" where
  "nat_str n = (if n < 10 then [char_of (48 + n)]
                else nat_str (n div 10) @ [char_of (48 + n mod 10)])"

declare nat_str.simps [simp del]

text \<open>A lower-case hex digit.\<close>

definition hex_digit :: "nat \<Rightarrow> char" where
  "hex_digit d = (if d < 10 then char_of (48 + d) else char_of (87 + d))"

definition indexed :: "jval list \<Rightarrow> fields" where
  "indexed vs = map (\<lambda>(i, v). (nat_str i, v)) (zip [0..<length vs] vs)"

text \<open>Object spread \<open>{...x}\<close>: own enumerable properties of \<open>x\<close>, one per
  key (a key listed twice in a \<open>JObj\<close> denotes the object in which the last
  value won, as \<open>JSON.parse\<close> builds it); a string or an array spreads its
  indices, \<open>null\<close>, booleans and numbers spread nothing.\<close>

fun obj_spread :: "jval \<Rightarrow> fields" where
  "obj_spread (JObj fs) = jmerge [] fs"
| "obj_spread (JArr vs) = indexed vs"
| "obj_spread (JStr s) = indexed (map (\<lambda>c. JStr [c]) s)"
| "obj_spread _ = []"

text \<open>Assignment \<open>x.k = v\<close> in strict mode (the sources are ES modules): an
  object gains or overwrites the property; \<open>null\<close> and primitives throw a
  \<open>TypeError\<close>. A named property on an array is not a JSON value: the array
  is kept as it is.\<close>

fun set_prop :: "jval \<Rightarrow> string \<Rightarrow> jval \<Rightarrow> string + jval" where
  "set_prop (JObj fs) k v = Inr (JObj (jput k v (jmerge [] fs)))"
| "set_prop (JArr vs) k v = Inr (JArr vs)"
| "set_prop JNull k v = Inl (''Cannot set properties of null (setting '' @ k @ '')'')"
| "set_prop _ k v = Inl (''Cannot create property '' @ k @ '' on a primitive value'')"

text \<open>The notifications of \<open>react-hot-toast\<close> both pages show, in order.\<close>

datatype toast = ToastSuccess string | ToastError string | ToastLoading string | ToastDismiss

section \<open>Strings\<close>

text \<open>\<open>s.split(d)\<close> for a one-character separator: never empty, \<open>"".split(d) = [""]\<close>.\<close>

primrec js_split :: "char \<Rightarrow> string \<Rightarrow> string list" where
  "js_split d [] = [[]]"
| "js_split d (c # cs) =
     (if c = d then [] # js_split d cs
      else (case js_split d cs of w # ws \<Rightarrow> (c # w) # ws | [] \<Rightarrow> [[c]]))"

text \<open>\<open>ws.join(d)\<close>.\<close>

fun js_join :: "char \<Rightarrow> string list \<Rightarrow> string" where
  "js_join d [] = []"
| "js_join d [w] = w"
| "js_join d (w # ws) = w @ d # js_join d ws"

text \<open>\<open>s.replace(pat, rep)\<close> with a string pattern: the first occurrence only.\<close>

fun replace_first :: "string \<Rightarrow> string \<Rightarrow> string \<Rightarrow> string" where
  "replace_first pat rep [] = (if pat = [] then rep else [])"
| "replace_first pat rep (c # cs) =
     (if take (length pat) (c # cs) = pat then rep @ drop (length pat) (c # cs)
      else c # replace_first pat rep cs)"

section \<open>Sparse arrays\<close>

text \<open>\<open>a[i] = v\<close> on a JavaScript array: inside the array it overwrites, past
  the end it extends the array with holes (\<open>None\<close>) up to index \<open>i\<close>.\<close>

definition js_assign :: "'a option list \<Rightarrow> nat \<Rightarrow> 'a option \<Rightarrow> 'a option list" where
  "js_assign xs i v =
     (if i < length xs then xs[i := v] else xs @ replicate (i - length xs) None @ [v])"

section \<open>Shared lemmas\<close>

lemma jget_Nil [simp, field_simps_js]: "jget [] k = None"
  by (simp add: jget_def)

lemma jget_Cons [simp, field_simps_js]:
  "jget ((a, b) # ps) k = (if k = a then Some b else jget ps k)"
  by (simp add: jget_def)

lemma jget_jput [simp, field_simps_js]:
  "jget (jput k v fs) k' = (if k' = k then Some v else jget fs k')"
  by (induction fs) (auto simp: jget_def)

lemma keys_jput [simp]:
  "keys (jput k v fs) = (if k \<in> set (keys fs) then keys fs else keys fs @ [k])"
  by (induction fs) (auto simp: keys_def)

lemma set_jput: "set (jput k v fs) \<subseteq> insert (k, v) (set fs)"
  by (induction fs) auto

lemma distinct_keys_jput [simp]: "distinct (keys fs) \<Longrightarrow> distinct (keys (jput k v fs))"
  by simp

lemma length_jput_le: "length (jput k v fs) \<le> Suc (length fs)"
  by (induction fs) auto

lemma jput_same_key: "jget fs k = Some v \<Longrightarrow> distinct (keys fs) \<Longrightarrow> jput k v fs = fs"
  by (induction fs) (auto simp: keys_def jget_def)

lemma jget_jmerge [field_simps_js]:
  "jget (jmerge fs upd) k = (case map_of (rev upd) k of None \<Rightarrow> jget fs k | Some v \<Rightarrow> Some v)"
proof (induction upd arbitrary: fs rule: rev_induct)
  case Nil
  then show ?case by (simp add: jmerge_def)
next
  case (snoc p upd)
  obtain a b where p: "p = (a, b)" by (cases p)
  have "jmerge fs (upd @ [p]) = jput a b (jmerge fs upd)"
    by (simp add: jmerge_def p)
  with snoc p show ?case by (auto split: option.splits)
qed

lemma jmerge_Nil [simp]: "jmerge fs [] = fs"
  by (simp add: jmerge_def)

lemma jmerge_single [simp]: "jmerge fs [(k, v)] = jput k v fs"
  by (simp add: jmerge_def)

lemma distinct_keys_jmerge: "distinct (keys fs) \<Longrightarrow> distinct (keys (jmerge fs upd))"
proof (induction upd arbitrary: fs)
  case Nil
  then show ?case by simp
next
  case (Cons p upd)
  then show ?case by (cases p) (simp add: jmerge_def del: keys_jput)
qed

lemma set_keys_jmerge [simp]:
  "set (keys (jmerge fs upd)) = set (keys fs) \<union> set (map fst upd)"
proof (induction upd arbitrary: fs)
  case Nil
  then show ?case by simp
next
  case (Cons p upd)
  obtain a b where p: "p = (a, b)" by (cases p)
  have "jmerge fs (p # upd) = jmerge (jput a b fs) upd" by (simp add: jmerge_def p)
  with Cons p show ?case by (auto split: if_splits)
qed

lemma jput_notin: "k \<notin> set (keys fs) \<Longrightarrow> jput k v fs = fs @ [(k, v)]"
  by (induction fs) (auto simp: keys_def)

lemma jmerge_Nil_distinct: "distinct (keys fs) \<Longrightarrow> jmerge [] fs = fs"
proof (induction fs rule: rev_induct)
  case Nil
  then show ?case by simp
next
  case (snoc p fs)
  obtain a b where p: "p = (a, b)" by (cases p)
  from snoc.prems p have "distinct (keys fs)" "a \<notin> set (keys fs)" by (auto simp: keys_def)
  with snoc.IH p show ?case by (simp add: jmerge_def jput_notin)
qed

lemma distinct_keys_obj_spread_JObj: "distinct (keys (obj_spread (JObj fs)))"
  using distinct_keys_jmerge [of "[]" fs] by (simp add: keys_def)

lemma jget_filter [field_simps_js]: "P k \<Longrightarrow> jget (filter (\<lambda>(a, b). P a) fs) k = jget fs k"
  by (induction fs) auto

lemma distinct_keys_filter: "distinct (keys fs) \<Longrightarrow> distinct (keys (filter P fs))"
  by (simp add: keys_def distinct_map_filter)

lemma map_of_rev_distinct: "distinct (keys fs) \<Longrightarrow> map_of (rev fs) = map_of fs"
proof (induction fs)
  case Nil
  then show ?case by simp
next
  case (Cons p fs)
  obtain a b where p: "p = (a, b)" by (cases p)
  from Cons.prems p have "a \<notin> dom (map_of fs)" "distinct (keys fs)"
    by (auto simp: keys_def dom_map_of_conv_image_fst)
  with Cons.IH p show ?case
    by (auto simp: fun_eq_iff map_add_def split: option.splits)
qed

lemma map_of_rev_jput:
  "k \<notin> set (keys fs) \<or> distinct (keys fs) \<Longrightarrow> map_of (rev (jput k v fs)) k = Some v"
proof (elim disjE)
  assume "k \<notin> set (keys fs)"
  then show ?thesis by (simp add: jput_notin)
next
  assume d: "distinct (keys fs)"
  then have "map_of (rev (jput k v fs)) = map_of (jput k v fs)"
    by (intro map_of_rev_distinct distinct_keys_jput)
  then show ?thesis using jget_jput [of k v fs k] by (simp add: jget_def)
qed

lemma jget_jmerge_Nil_filter:
  assumes "P k" "k \<notin> set (keys fs) \<or> distinct (keys fs)"
  shows "jget (jmerge [] (filter (\<lambda>(a, b). P a) (jput k v fs))) k = Some v"
proof -
  have "map_of (filter (\<lambda>(a, b). P a) (rev (jput k v fs))) k = map_of (rev (jput k v fs)) k"
    using jget_filter [of P k "rev (jput k v fs)", OF assms(1)] by (simp add: jget_def)
  with map_of_rev_jput [OF assms(2)] show ?thesis
    by (simp add: jget_jmerge rev_filter)
qed

lemma last_nat_str: "last (nat_str n) = char_of (48 + n mod 10)"
  by (subst nat_str.simps) (simp del: nat_str.simps)

lemma nat_str_not_alpha:
  assumes "of_char (last w) > (57::nat)"
  shows "w \<notin> set (keys (indexed vs))"
proof
  assume "w \<in> set (keys (indexed vs))"
  then obtain i where w: "w = nat_str i"
    by (auto simp: keys_def indexed_def set_zip)
  have "of_char (char_of (48 + i mod 10) :: char) = (48 + i mod 10 :: nat)"
    by (simp add: of_char_of)
  with assms w last_nat_str [of i] show False by simp
qed

lemma obj_spread_image_key:
  "''image'' \<notin> set (keys (obj_spread v)) \<or> distinct (keys (obj_spread v))"
proof (cases v)
  case (JObj fs)
  then show ?thesis using distinct_keys_obj_spread_JObj by simp
next
  case (JArr vs)
  then show ?thesis using nat_str_not_alpha [of "''image''" vs] by simp
next
  case (JStr s)
  then show ?thesis using nat_str_not_alpha [of "''image''" "map (\<lambda>c. JStr [c]) s"] by simp
qed (simp_all add: keys_def)

lemma jput_idem [simp]: "jput k v (jput k v fs) = jput k v fs"
  by (induction fs) auto

lemma js_split_nonempty [simp]: "js_split d s \<noteq> []"
  by (cases s) (auto split: list.splits)

lemma js_join_split: "js_join d (js_split d s) = s"
proof (induction s)
  case Nil
  then show ?case by simp
next
  case (Cons c cs)
  show ?case
  proof (cases "c = d")
    case True
    with Cons show ?thesis by (cases "js_split d cs") auto
  next
    case False
    obtain w ws where sp: "js_split d cs = w # ws"
      using js_split_nonempty by (metis list.exhaust)
    with Cons False show ?thesis by (cases ws) auto
  qed
qed

lemma js_split_no_sep: "w \<in> set (js_split d s) \<Longrightarrow> d \<notin> set w"
proof (induction s arbitrary: w)
  case Nil
  then show ?case by simp
next
  case (Cons c cs)
  obtain v vs where sp: "js_split d cs = v # vs"
    using js_split_nonempty by (metis list.exhaust)
  from Cons sp show ?case by (auto split: if_splits)
qed

lemma replace_first_prefix:
  "replace_first pat rep (pat @ s) = rep @ s"
  by (cases s; cases pat) simp_all

lemma replace_first_absent:
  "pat \<noteq> [] \<Longrightarrow> \<not> (\<exists>xs ys. s = xs @ pat @ ys) \<Longrightarrow> replace_first pat rep s = s"
proof (induction s)
  case Nil
  then show ?case by simp
next
  case (Cons c cs)
  have ne: "take (length pat) (c # cs) \<noteq> pat"
  proof
    assume "take (length pat) (c # cs) = pat"
    then have "c # cs = [] @ pat @ drop (length pat) (c # cs)"
      by (metis append_Nil append_take_drop_id)
    with Cons.prems show False by blast
  qed
  have "\<not> (\<exists>xs ys. cs = xs @ pat @ ys)"
  proof
    assume "\<exists>xs ys. cs = xs @ pat @ ys"
    then obtain xs ys where "cs = xs @ pat @ ys" by blast
    then have "c # cs = (c # xs) @ pat @ ys" by simp
    with Cons.prems show False by blast
  qed
  with Cons ne show ?case by simp
qed

lemma js_assign_length:
  "length (js_assign xs i v) = max (length xs) (Suc i)"
  by (simp add: js_assign_def)

lemma js_assign_nth [simp]: "js_assign xs i v ! i = v"
  by (simp add: js_assign_def nth_append)

lemma js_assign_other:
  "j \<noteq> i \<Longrightarrow> j < length xs \<Longrightarrow> js_assign xs i v ! j = xs ! j"
  by (auto simp: js_assign_def nth_append)

end
