(* ===== verification/Store.thy ===== *)
theory Store
  imports Prelude
begin

text \<open>
  The document store behind the controller: the Mongoose model \<open>Product\<close>
  (\<open>server/models/Product.js\<close>, not part of the sources), modelled from the
  spec. The collection is an association list from ObjectIds to documents, in
  insertion order (the order \<open>Product.find({})\<close> returns). Fresh ids come
  from a counter rendered as 24 lower-case hex digits, the ObjectId space.
  Each operation the controller calls is one definition, failing with the
  message Mongoose throws: \<open>create\<close>, \<open>find_by_id\<close>,
  \<open>find_by_id_and_update\<close>, \<open>find_by_id_and_delete\<close>. The schema's
  validators are a parameter (the schema is not in the repository); its
  paths are the fields the spec lists, and strict mode drops the others.
  The store refines a finite map (\<open>store_map\<close>) under \<open>store_inv\<close>.
\<close>

section \<open>ObjectIds\<close>

type_synonym oid = string

primrec hex_pad :: "nat \<Rightarrow> nat \<Rightarrow> string" where
  "hex_pad 0 n = []"
| "hex_pad (Suc w) n = hex_pad w (n div 16) @ [hex_digit (n mod 16)]"

definition is_hex :: "char \<Rightarrow> bool" where
  "is_hex c = (let k = of_char c :: nat in
     (48 \<le> k \<and> k \<le> 57) \<or> (97 \<le> k \<and> k \<le> 102) \<or> (65 \<le> k \<and> k \<le> 70))"

definition hex_val :: "char \<Rightarrow> nat" where
  "hex_val c = (let k = of_char c :: nat in
     if 48 \<le> k \<and> k \<le> 57 then k - 48
     else if 97 \<le> k \<and> k \<le> 102 then k - 87
     else if 65 \<le> k \<and> k \<le> 70 then k - 55 else 0)"

definition of_hex :: "string \<Rightarrow> nat" where
  "of_hex s = foldl (\<lambda>acc c. 16 * acc + hex_val c) 0 s"

text \<open>Casting a string to an ObjectId: 24 hex digits of either case, kept in
  canonical lower-case form; anything else is a \<open>CastError\<close>.\<close>

definition cast_oid :: "string \<Rightarrow> oid option" where
  "cast_oid s = (if length s = 24 \<and> list_all is_hex s then Some (hex_pad 24 (of_hex s)) else None)"

definition cast_msg :: "string \<Rightarrow> string" where
  "cast_msg s = ''Cast to ObjectId failed for value \"'' @ s @ ''\" (type string) at path \"_id\" for model \"Product\"''"

text \<open>The id argument of \<open>findById\<close> and its kin: \<open>undefined\<close> and \<open>null\<close>
  become a query for \<open>_id: null\<close>, which matches nothing.\<close>

fun cast_id :: "jval option \<Rightarrow> string + oid option" where
  "cast_id None = Inr None"
| "cast_id (Some JNull) = Inr None"
| "cast_id (Some (JStr s)) = (case cast_oid s of Some i \<Rightarrow> Inr (Some i) | None \<Rightarrow> Inl (cast_msg s))"
| "cast_id (Some _) = Inl ''Cast to ObjectId failed for value at path \"_id\" for model \"Product\"''"

section \<open>The collection\<close>

record store =
  docs :: "(oid \<times> fields) list"
  next_id :: nat

definition product_paths :: "string list" where
  "product_paths = [''name'', ''description'', ''price'', ''offerPrice'', ''image'',
                    ''category'', ''inStock'', ''quantity'', ''barcode'']"

definition schema_filter :: "fields \<Rightarrow> fields" where
  "schema_filter fs = filter (\<lambda>(k, v). k \<in> set product_paths) fs"

definition fresh_oid :: "store \<Rightarrow> oid" where
  "fresh_oid st = hex_pad 24 (next_id st)"

definition doc_json :: "oid \<times> fields \<Rightarrow> jval" where
  "doc_json p = JObj ((''_id'', JStr (fst p)) # snd p)"

definition replace_doc :: "oid \<Rightarrow> fields \<Rightarrow> (oid \<times> fields) list \<Rightarrow> (oid \<times> fields) list" where
  "replace_doc i d ds = map (\<lambda>(j, e). if j = i then (j, d) else (j, e)) ds"

definition remove_doc :: "oid \<Rightarrow> (oid \<times> fields) list \<Rightarrow> (oid \<times> fields) list" where
  "remove_doc i ds = filter (\<lambda>(j, e). j \<noteq> i) ds"

text \<open>\<open>Product.create(obj)\<close>: strict mode keeps the schema's paths, the
  validators run, and the document is inserted under a fresh id.\<close>

definition create :: "(fields \<Rightarrow> bool) \<Rightarrow> fields \<Rightarrow> store \<Rightarrow> string + (oid \<times> fields) \<times> store" where
  "create valid fs st =
     (let d = jmerge [] (schema_filter fs); i = fresh_oid st in
      if valid d then Inr ((i, d), st\<lparr>docs := docs st @ [(i, d)], next_id := Suc (next_id st)\<rparr>)
      else Inl ''Product validation failed'')"

definition find_all :: "store \<Rightarrow> (oid \<times> fields) list" where
  "find_all st = docs st"

definition find_by_id :: "jval option \<Rightarrow> store \<Rightarrow> string + (oid \<times> fields) option" where
  "find_by_id idv st =
     (case cast_id idv of
        Inl e \<Rightarrow> Inl e
      | Inr None \<Rightarrow> Inr None
      | Inr (Some i) \<Rightarrow> Inr (map_option (Pair i) (map_of (docs st) i)))"

text \<open>\<open>Product.findByIdAndUpdate(id, upd, {new: true, runValidators})\<close>:
  the id and the update are cast first, the update validators run when asked,
  then a missing document gives \<open>null\<close> and a present one is updated key by
  key and returned in its new form.\<close>

definition find_by_id_and_update ::
  "bool \<Rightarrow> (fields \<Rightarrow> bool) \<Rightarrow> jval option \<Rightarrow> jval \<Rightarrow> store \<Rightarrow>
   string + (oid \<times> fields) option \<times> store" where
  "find_by_id_and_update run_validators valid idv upd st =
     (case cast_id idv of
        Inl e \<Rightarrow> Inl e
      | Inr io \<Rightarrow>
          (case upd of
             JObj u \<Rightarrow>
               (let u' = schema_filter u in
                if run_validators \<and> \<not> valid u' then Inl ''Validation failed''
                else (case io of
                        None \<Rightarrow> Inr (None, st)
                      | Some i \<Rightarrow>
                          (case map_of (docs st) i of
                             None \<Rightarrow> Inr (None, st)
                           | Some d \<Rightarrow>
                               (let d' = jmerge d u' in
                                Inr (Some (i, d'), st\<lparr>docs := replace_doc i d' (docs st)\<rparr>)))))
           | _ \<Rightarrow> Inl ''Parameter \"update\" to findOneAndUpdate() must be an object''))"

definition find_by_id_and_delete ::
  "jval option \<Rightarrow> store \<Rightarrow> string + (oid \<times> fields) option \<times> store" where
  "find_by_id_and_delete idv st =
     (case cast_id idv of
        Inl e \<Rightarrow> Inl e
      | Inr None \<Rightarrow> Inr (None, st)
      | Inr (Some i) \<Rightarrow>
          (case map_of (docs st) i of
             None \<Rightarrow> Inr (None, st)
           | Some d \<Rightarrow> Inr (Some (i, d), st\<lparr>docs := remove_doc i (docs st)\<rparr>)))"

section \<open>Invariant and abstraction\<close>

text \<open>Ids are distinct, canonical and below the counter, and every document
  is a product: its keys are distinct schema paths.\<close>

definition canonical :: "oid \<Rightarrow> bool" where
  "canonical i = (i = hex_pad 24 (of_hex i))"

definition doc_wf :: "nat \<Rightarrow> oid \<times> fields \<Rightarrow> bool" where
  "doc_wf n p = (canonical (fst p) \<and> of_hex (fst p) < n \<and>
                 distinct (keys (snd p)) \<and> set (keys (snd p)) \<subseteq> set product_paths)"

definition store_inv :: "store \<Rightarrow> bool" where
  "store_inv st = (distinct (map fst (docs st)) \<and> list_all (doc_wf (next_id st)) (docs st))"

definition store_map :: "store \<Rightarrow> oid \<rightharpoonup> fields" where
  "store_map st = map_of (docs st)"

section \<open>Lemmas on ObjectIds\<close>

lemma hex_val_digit [simp]: "d < 16 \<Longrightarrow> hex_val (hex_digit d) = d"
  by (auto simp: hex_val_def hex_digit_def Let_def)

lemma is_hex_digit [simp]: "d < 16 \<Longrightarrow> is_hex (hex_digit d)"
  by (auto simp: is_hex_def hex_digit_def Let_def)

lemma length_hex_pad [simp]: "length (hex_pad w n) = w"
  by (induction w arbitrary: n) auto

lemma of_hex_snoc [simp]: "of_hex (xs @ [c]) = 16 * of_hex xs + hex_val c"
  by (simp add: of_hex_def)

lemma of_hex_hex_pad [simp]: "of_hex (hex_pad w n) = n mod 16 ^ w"
proof (induction w arbitrary: n)
  case 0
  then show ?case by (simp add: of_hex_def)
next
  case (Suc w)
  have "n mod (16 * 16 ^ w) = 16 * (n div 16 mod 16 ^ w) + n mod 16"
    by (rule mod_mult2_eq)
  with Suc show ?case by simp
qed

lemma hex_pad_mod [simp]: "hex_pad w (n mod 16 ^ w) = hex_pad w n"
proof (induction w arbitrary: n)
  case 0
  then show ?case by simp
next
  case (Suc w)
  have eq: "n mod (16 * 16 ^ w) = 16 * (n div 16 mod 16 ^ w) + n mod 16"
    by (rule mod_mult2_eq)
  have "n mod (16 * 16 ^ w) div 16 = n div 16 mod 16 ^ w"
    by (simp add: eq)
  moreover have "n mod (16 * 16 ^ w) mod 16 = n mod 16"
    by (simp add: eq)
  ultimately show ?case using Suc by simp
qed

lemma hex_pad_all_hex: "list_all is_hex (hex_pad w n)"
  by (induction w arbitrary: n) auto

lemma hex_pad_inj:
  assumes "m < 16 ^ w" "n < 16 ^ w" "hex_pad w m = hex_pad w n"
  shows "m = n"
proof -
  have "of_hex (hex_pad w m) = of_hex (hex_pad w n)" using assms(3) by simp
  with assms(1,2) show ?thesis by simp
qed

lemma hex_pad_eq_iff [simp]:
  "m < 16 ^ w \<Longrightarrow> n < 16 ^ w \<Longrightarrow> hex_pad w m = hex_pad w n \<longleftrightarrow> m = n"
  using hex_pad_inj by blast

lemma canonical_hex_pad [simp]: "canonical (hex_pad 24 n)"
proof -
  have "of_hex (hex_pad 24 n) = n mod 16 ^ 24" by (simp only: of_hex_hex_pad)
  then have "hex_pad 24 (of_hex (hex_pad 24 n)) = hex_pad 24 n" by (metis hex_pad_mod)
  then show ?thesis by (simp add: canonical_def)
qed

lemma cast_oid_canonical: "cast_oid s = Some i \<Longrightarrow> canonical i"
  by (auto simp: cast_oid_def canonical_hex_pad split: if_splits)

lemma cast_oid_hex_pad [simp]: "n < 16 ^ 24 \<Longrightarrow> cast_oid (hex_pad 24 n) = Some (hex_pad 24 n)"
  by (simp add: cast_oid_def hex_pad_all_hex)

lemma cast_oid_of_canonical [simp]: "canonical i \<Longrightarrow> cast_oid i = Some i"
  unfolding canonical_def by (metis length_hex_pad hex_pad_all_hex cast_oid_def)

section \<open>Lemmas on the collection\<close>

lemma map_fst_replace_doc [simp]: "map fst (replace_doc i d ds) = map fst ds"
  by (induction ds) (auto simp: replace_doc_def)

lemma map_of_replace_doc:
  "map_of (replace_doc i d ds) = (if i \<in> dom (map_of ds) then (map_of ds)(i \<mapsto> d) else map_of ds)"
  by (induction ds) (auto simp: replace_doc_def fun_eq_iff)

lemma map_of_remove_doc [simp]: "map_of (remove_doc i ds) = (map_of ds)(i := None)"
  by (induction ds) (auto simp: remove_doc_def fun_eq_iff)

lemma set_replace_doc:
  "(j, e) \<in> set (replace_doc i d ds) \<Longrightarrow> (j, e) \<in> set ds \<or> (j = i \<and> e = d)"
  by (induction ds) (auto simp: replace_doc_def split: if_splits)

lemma keys_schema_filter: "set (map fst (schema_filter fs)) \<subseteq> set product_paths"
  by (auto simp: schema_filter_def)

lemma doc_wf_jmerge:
  assumes "doc_wf n (i, d)"
  shows "doc_wf n (i, jmerge d (schema_filter u))"
  using assms keys_schema_filter distinct_keys_jmerge by (auto simp: doc_wf_def)

lemma doc_wf_mono: "doc_wf n p \<Longrightarrow> n \<le> m \<Longrightarrow> doc_wf m p"
  by (auto simp: doc_wf_def)

lemma map_of_snoc_fresh:
  "i \<notin> set (map fst xs) \<Longrightarrow> map_of (xs @ [(i, d)]) = (map_of xs)(i \<mapsto> d)"
  by (induction xs) (auto simp: fun_upd_twist)

lemma store_inv_fresh:
  assumes "store_inv st" "next_id st < 16 ^ 24"
  shows "fresh_oid st \<notin> set (map fst (docs st))"
proof
  assume "fresh_oid st \<in> set (map fst (docs st))"
  then obtain d where "(fresh_oid st, d) \<in> set (docs st)" by auto
  with assms(1) have "of_hex (fresh_oid st) < next_id st"
    by (auto simp: store_inv_def list_all_iff doc_wf_def)
  with assms(2) show False by (simp add: fresh_oid_def)
qed

lemma create_result:
  "create valid fs st = Inr (p, st') \<Longrightarrow>
   p = (fresh_oid st, jmerge [] (schema_filter fs)) \<and>
   st' = st\<lparr>docs := docs st @ [p], next_id := Suc (next_id st)\<rparr>"
  by (auto simp: create_def Let_def split: if_splits)

lemma create_store_inv:
  assumes "store_inv st" "next_id st < 16 ^ 24" "create valid fs st = Inr (p, st')"
  shows "store_inv st'"
proof -
  have fresh: "fresh_oid st \<notin> set (map fst (docs st))" using assms(1,2) by (rule store_inv_fresh)
  have "doc_wf (Suc (next_id st)) (fresh_oid st, jmerge [] (schema_filter fs))"
    using doc_wf_jmerge [of "Suc (next_id st)" "fresh_oid st" "[]" fs] assms(2)
    by (simp add: doc_wf_def keys_def fresh_oid_def)
  moreover have "list_all (doc_wf (Suc (next_id st))) (docs st)"
    using assms(1) by (auto simp: store_inv_def list_all_iff intro: doc_wf_mono)
  ultimately show ?thesis
    using create_result [OF assms(3)] assms(1) fresh by (auto simp: store_inv_def)
qed

lemma update_store_inv:
  assumes "store_inv st" "find_by_id_and_update rv valid idv upd st = Inr (r, st')"
  shows "store_inv st'"
proof (cases "st' = st")
  case True
  with assms(1) show ?thesis by simp
next
  case False
  with assms(2) obtain i u d where
    d: "map_of (docs st) i = Some d" and
    st': "st' = st\<lparr>docs := replace_doc i (jmerge d (schema_filter u)) (docs st)\<rparr>"
    by (auto simp: find_by_id_and_update_def Let_def split: sum.splits jval.splits option.splits if_splits)
  from d have "(i, d) \<in> set (docs st)" by (rule map_of_SomeD)
  with assms(1) have "doc_wf (next_id st) (i, jmerge d (schema_filter u))"
    by (auto simp: store_inv_def list_all_iff intro: doc_wf_jmerge)
  with assms(1) show ?thesis
    by (auto simp: st' store_inv_def list_all_iff dest!: set_replace_doc)
qed

lemma delete_store_inv:
  assumes "store_inv st" "find_by_id_and_delete idv st = Inr (r, st')"
  shows "store_inv st'"
  using assms
  by (auto simp: find_by_id_and_delete_def store_inv_def remove_doc_def list_all_iff distinct_map_filter
           split: sum.splits option.splits)

lemma create_field:
  assumes "create valid fs st = Inr ((i, d), st')" "k \<in> set product_paths" "distinct (keys fs)"
  shows "jget d k = jget fs k"
proof -
  have d: "d = jmerge [] (schema_filter fs)" using create_result [OF assms(1)] by simp
  have "distinct (keys (schema_filter fs))" using assms(3) by (simp add: schema_filter_def distinct_keys_filter)
  then have "d = schema_filter fs" using d jmerge_Nil_distinct by simp
  then show ?thesis using assms(2) jget_filter [of "\<lambda>a. a \<in> set product_paths" k fs]
    by (simp add: schema_filter_def)
qed

lemma create_store_map:
  assumes "store_inv st" "next_id st < 16 ^ 24" "create valid fs st = Inr ((i, d), st')"
  shows "store_map st' = (store_map st)(i \<mapsto> d)"
  using create_result [OF assms(3)] store_inv_fresh [OF assms(1,2)]
  by (simp add: store_map_def map_of_snoc_fresh del: map_of_append)

lemma update_store_map:
  assumes "find_by_id_and_update rv valid idv upd st = Inr (Some (i, d'), st')"
  shows "\<exists>d. store_map st i = Some d \<and> store_map st' = (store_map st)(i \<mapsto> d')"
  using assms
  by (auto simp: find_by_id_and_update_def store_map_def map_of_replace_doc Let_def
           split: sum.splits jval.splits option.splits if_splits)

lemma update_none_unchanged:
  "find_by_id_and_update rv valid idv upd st = Inr (None, st') \<Longrightarrow> st' = st"
  by (auto simp: find_by_id_and_update_def Let_def split: sum.splits jval.splits option.splits if_splits)

lemma delete_store_map:
  "find_by_id_and_delete idv st = Inr (r, st') \<Longrightarrow>
   store_map st' = (case r of None \<Rightarrow> store_map st | Some (i, d) \<Rightarrow> (store_map st)(i := None))"
  by (auto simp: find_by_id_and_delete_def store_map_def split: sum.splits option.splits)

lemma jget_jmerge_schema_absent:
  "k \<notin> set (keys u) \<Longrightarrow> jget (jmerge d (schema_filter u)) k = jget d k"
proof -
  assume k: "k \<notin> set (keys u)"
  have "map_of (rev (schema_filter u)) k = None"
    using k by (auto simp: map_of_eq_None_iff keys_def schema_filter_def)
  then show ?thesis by (simp add: jget_jmerge)
qed

lemma update_frame_key:
  assumes "find_by_id_and_update rv valid idv (JObj u) st = Inr (r, st')" "k \<notin> set (keys u)"
  shows "map_option (\<lambda>d. jget d k) \<circ> store_map st' = map_option (\<lambda>d. jget d k) \<circ> store_map st"
proof (cases r)
  case None
  with assms(1) show ?thesis using update_none_unchanged by blast
next
  case (Some p)
  obtain i d' where p: "p = (i, d')" by (cases p)
  from assms(1) Some p obtain d where
    d: "map_of (docs st) i = Some d" and d': "d' = jmerge d (schema_filter u)" and
    st': "st' = st\<lparr>docs := replace_doc i d' (docs st)\<rparr>"
    by (auto simp: find_by_id_and_update_def Let_def split: sum.splits option.splits if_splits)
  have "jget d' k = jget d k" using assms(2) d' jget_jmerge_schema_absent by simp
  with d st' show ?thesis
    by (auto simp: store_map_def map_of_replace_doc fun_eq_iff)
qed

lemma update_found:
  assumes "find_by_id_and_update rv valid idv (JObj u) st = Inr (Some (i, d'), st')"
  shows "\<exists>d. map_of (docs st) i = Some d \<and> d' = jmerge d (schema_filter u) \<and>
             st' = st\<lparr>docs := replace_doc i d' (docs st)\<rparr>"
  using assms
  by (auto simp: find_by_id_and_update_def Let_def split: sum.splits option.splits if_splits)

lemma update_Inr_obj: "find_by_id_and_update rv valid idv upd st = Inr r \<Longrightarrow> \<exists>u. upd = JObj u"
  by (auto simp: find_by_id_and_update_def split: sum.splits jval.splits)

lemma jget_jmerge_schema_jput:
  assumes "k \<in> set product_paths" "distinct (keys fs)"
  shows "jget (jmerge d (schema_filter (jput k v fs))) k = Some v"
proof -
  have "map_of (rev (schema_filter (jput k v fs))) k = map_of (rev (jput k v fs)) k"
    using jget_filter [of "\<lambda>a. a \<in> set product_paths" k "rev (jput k v fs)"] assms(1)
    by (simp add: jget_def schema_filter_def rev_filter)
  also have "\<dots> = Some v" using assms(2) by (intro map_of_rev_jput) simp
  finally show ?thesis by (simp add: jget_jmerge)
qed

lemma cast_oid_nonempty: "cast_oid i = Some j \<Longrightarrow> i \<noteq> []"
  by (auto simp: cast_oid_def split: if_splits)

lemma delete_absent:
  "cast_oid i = Some j \<Longrightarrow> map_of (docs st) j = None \<Longrightarrow>
   find_by_id_and_delete (Some (JStr i)) st = Inr (None, st)"
  by (simp add: find_by_id_and_delete_def)

lemma delete_present:
  "cast_oid i = Some j \<Longrightarrow> map_of (docs st) j = Some d \<Longrightarrow>
   find_by_id_and_delete (Some (JStr i)) st = Inr (Some (j, d), st\<lparr>docs := remove_doc j (docs st)\<rparr>)"
  by (simp add: find_by_id_and_delete_def)

lemma update_absent:
  "cast_oid i = Some j \<Longrightarrow> map_of (docs st) j = None \<Longrightarrow> \<not> (rv \<and> \<not> valid (schema_filter u)) \<Longrightarrow>
   find_by_id_and_update rv valid (Some (JStr i)) (JObj u) st = Inr (None, st)"
  by (simp add: find_by_id_and_update_def Let_def)

lemma replace_doc_idem [simp]: "replace_doc i d (replace_doc i d ds) = replace_doc i d ds"
  by (induction ds) (auto simp: replace_doc_def)

lemma map_of_replace_doc_at:
  "map_of ds i = Some d0 \<Longrightarrow> map_of (replace_doc i d ds) i = Some d"
  by (simp add: map_of_replace_doc domI)

lemma jmerge_single_idem:
  "length u \<le> 1 \<Longrightarrow> jmerge (jmerge d u) u = jmerge d u"
  by (cases u) (auto simp: jmerge_def)

lemma schema_filter_length: "length (schema_filter u) \<le> length u"
  by (simp add: schema_filter_def)

text \<open>Repeating an update whose data has at most one key changes nothing more.\<close>

lemma update_repeat_single:
  assumes "length u \<le> 1"
    "find_by_id_and_update rv valid idv (JObj u) st = Inr (r, st')"
  shows "\<exists>r'. find_by_id_and_update rv valid idv (JObj u) st' = Inr (r', st')"
proof (cases r)
  case None
  with assms(2) have "st' = st" using update_none_unchanged by blast
  with assms(2) show ?thesis by blast
next
  case (Some p)
  obtain i d' where p: "p = (i, d')" by (cases p)
  from assms(2) Some p obtain d where
    d: "map_of (docs st) i = Some d" and d': "d' = jmerge d (schema_filter u)" and
    st': "st' = st\<lparr>docs := replace_doc i d' (docs st)\<rparr>"
    using update_found by blast
  have l: "length (schema_filter u) \<le> 1" using assms(1) schema_filter_length order_trans by blast
  from d have "map_of (docs st') i = Some d'" by (simp add: st' map_of_replace_doc_at)
  moreover have "jmerge d' (schema_filter u) = d'" using l by (simp add: d' jmerge_single_idem)
  ultimately show ?thesis using assms(2) Some p st'
    by (auto simp: find_by_id_and_update_def Let_def split: sum.splits option.splits if_splits)
qed

end
