(* ===== verification/Controller.thy ===== *)
theory Controller
  imports Store
begin

text \<open>
  The REST handlers of \<open>src/server/controllers/productController.js\<close>,
  one definition each: \<open>addProduct\<close>, \<open>productList\<close>, \<open>productById\<close>,
  \<open>changeStock\<close>, \<open>deleteProduct\<close>, \<open>updateProduct\<close>. A handler maps the
  request and the server state (the document store and the image host) to
  the new state and the JSON body it sends. A thrown error is a value
  \<open>Inl message\<close>; the handler's \<open>catch\<close> turns it into
  \<open>{success: false, message}\<close>, keeping whatever state the failed call had
  already changed (uploaded images stay on the host). The external services
  the handlers call are the fields of \<open>env\<close>: \<open>JSON.parse\<close> on a body
  field, the image upload, and the schema's validators.
\<close>

section \<open>Requests, services and state\<close>

record env =
  json_parse :: "jval option \<Rightarrow> string + jval"
  upload :: "filepath \<Rightarrow> string + url"
  valid_doc :: "fields \<Rightarrow> bool"
  valid_update :: "fields \<Rightarrow> bool"

record request =
  body :: fields
  params :: "(string \<times> string) list"
  files :: "filepath list option"

record server =
  db :: store
  hosted :: "url list"

definition respond :: "bool \<Rightarrow> string \<Rightarrow> jval" where
  "respond ok msg = JObj [(''success'', JBool ok), (''message'', JStr msg)]"

section \<open>Concurrent uploads\<close>

text \<open>\<open>Promise.all\<close>: every upload runs to its end; the combined promise
  rejects with a failure (the model takes them in list order) or fulfils with
  all the URLs in the order of the files.\<close>

primrec promise_all :: "('e + 'a) list \<Rightarrow> 'e + 'a list" where
  "promise_all [] = Inr []"
| "promise_all (r # rs) =
     (case r of
        Inl e \<Rightarrow> Inl e
      | Inr x \<Rightarrow> (case promise_all rs of Inl e \<Rightarrow> Inl e | Inr xs \<Rightarrow> Inr (x # xs)))"

primrec fulfilled :: "('e + 'a) list \<Rightarrow> 'a list" where
  "fulfilled [] = []"
| "fulfilled (r # rs) = (case r of Inl e \<Rightarrow> fulfilled rs | Inr x \<Rightarrow> x # fulfilled rs)"

text \<open>\<open>Promise.all(images.map(item => cloudinary.uploader.upload(item.path)))\<close>:
  each successful upload is stored on the host, whether or not the others fail.\<close>

definition upload_all :: "env \<Rightarrow> filepath list \<Rightarrow> server \<Rightarrow> (string + url list) \<times> server" where
  "upload_all env fs s =
     (let rs = map (upload env) fs in (promise_all rs, s\<lparr>hosted := hosted s @ fulfilled rs\<rparr>))"

definition image_val :: "url list \<Rightarrow> jval" where
  "image_val urls = JArr (map JStr urls)"

section \<open>Handlers\<close>

text \<open>\<open>addProduct\<close> (lines 5--26).\<close>

definition addProduct :: "env \<Rightarrow> request \<Rightarrow> server \<Rightarrow> server \<times> jval" where
  "addProduct env req s =
     (case json_parse env (jget (body req) ''productData'') of
        Inl e \<Rightarrow> (s, respond False e)
      | Inr pd \<Rightarrow>
          (case files req of
             None \<Rightarrow> (s, respond False ''Cannot read properties of undefined (reading map)'')
           | Some imgs \<Rightarrow>
               (case upload_all env imgs s of
                  (Inl e, s1) \<Rightarrow> (s1, respond False e)
                | (Inr urls, s1) \<Rightarrow>
                    (case create (valid_doc env) (jput ''image'' (image_val urls) (obj_spread pd)) (db s1) of
                       Inl e \<Rightarrow> (s1, respond False e)
                     | Inr (_, st') \<Rightarrow> (s1\<lparr>db := st'\<rparr>, respond True ''Product Added'')))))"

text \<open>\<open>productList\<close> (lines 29--37).\<close>

definition productList :: "env \<Rightarrow> request \<Rightarrow> server \<Rightarrow> server \<times> jval" where
  "productList env req s =
     (s, JObj [(''success'', JBool True), (''products'', JArr (map doc_json (find_all (db s))))])"

text \<open>\<open>productById\<close> (lines 40--49): a missing document is \<open>product: null\<close>.\<close>

definition productById :: "env \<Rightarrow> request \<Rightarrow> server \<Rightarrow> server \<times> jval" where
  "productById env req s =
     (case find_by_id (jget (body req) ''id'') (db s) of
        Inl e \<Rightarrow> (s, respond False e)
      | Inr r \<Rightarrow> (s, JObj [(''success'', JBool True),
                           (''product'', case r of None \<Rightarrow> JNull | Some p \<Rightarrow> doc_json p)]))"

text \<open>\<open>changeStock\<close> (lines 52--61): the update \<open>{inStock}\<close> has no key when
  the body has no \<open>inStock\<close> (Mongoose drops undefined keys); no validators
  run, and the result of the update is not looked at.\<close>

definition stock_update :: "request \<Rightarrow> fields" where
  "stock_update req = (case jget (body req) ''inStock'' of None \<Rightarrow> [] | Some v \<Rightarrow> [(''inStock'', v)])"

definition changeStock :: "env \<Rightarrow> request \<Rightarrow> server \<Rightarrow> server \<times> jval" where
  "changeStock env req s =
     (case find_by_id_and_update False (valid_update env) (jget (body req) ''id'')
             (JObj (stock_update req)) (db s) of
        Inl e \<Rightarrow> (s, respond False e)
      | Inr (_, st') \<Rightarrow> (s\<lparr>db := st'\<rparr>, respond True ''Stock Updated''))"

text \<open>\<open>deleteProduct\<close> (lines 65--78): the guard \<open>!id\<close> on the path parameter.\<close>

definition param_id :: "request \<Rightarrow> jval option" where
  "param_id req = map_option JStr (map_of (params req) ''id'')"

definition deleteProduct :: "env \<Rightarrow> request \<Rightarrow> server \<Rightarrow> server \<times> jval" where
  "deleteProduct env req s =
     (if \<not> truthy (param_id req) then (s, respond False ''Product ID is required'')
      else (case find_by_id_and_delete (param_id req) (db s) of
              Inl e \<Rightarrow> (s, respond False e)
            | Inr (_, st') \<Rightarrow> (s\<lparr>db := st'\<rparr>, respond True ''Product deleted successfully'')))"

text \<open>\<open>updateProduct\<close> (lines 82--119): the update is the parsed
  \<open>productData\<close> field when it is truthy, the raw body otherwise; new images,
  if any, replace the \<open>image\<close> key; validators run; a missing document is
  a logical failure.\<close>

definition update_data :: "env \<Rightarrow> request \<Rightarrow> string + jval" where
  "update_data env req =
     (if truthy (jget (body req) ''productData'') then json_parse env (jget (body req) ''productData'')
      else Inr (JObj (body req)))"

definition update_uploads :: "env \<Rightarrow> request \<Rightarrow> server \<Rightarrow> (string + url list) \<times> server" where
  "update_uploads env req s =
     (case files req of
        Some imgs \<Rightarrow> if imgs \<noteq> [] then upload_all env imgs s else (Inr [], s)
      | None \<Rightarrow> (Inr [], s))"

definition with_images :: "jval \<Rightarrow> url list \<Rightarrow> string + jval" where
  "with_images pd urls = (if urls \<noteq> [] then set_prop pd ''image'' (image_val urls) else Inr pd)"

definition updateProduct :: "env \<Rightarrow> request \<Rightarrow> server \<Rightarrow> server \<times> jval" where
  "updateProduct env req s =
     (case update_data env req of
        Inl e \<Rightarrow> (s, respond False e)
      | Inr pd \<Rightarrow>
          (case update_uploads env req s of
             (Inl e, s1) \<Rightarrow> (s1, respond False e)
           | (Inr urls, s1) \<Rightarrow>
               (case with_images pd urls of
                  Inl e \<Rightarrow> (s1, respond False e)
                | Inr pd' \<Rightarrow>
                    (case find_by_id_and_update True (valid_update env) (param_id req) pd' (db s1) of
                       Inl e \<Rightarrow> (s1, respond False e)
                     | Inr (None, st') \<Rightarrow> (s1\<lparr>db := st'\<rparr>, respond False ''Product not found'')
                     | Inr (Some p, st') \<Rightarrow>
                         (s1\<lparr>db := st'\<rparr>,
                          JObj [(''success'', JBool True), (''message'', JStr ''Product updated successfully''),
                                (''product'', doc_json p)])))))"

section \<open>The controller as one step\<close>

text \<open>The six endpoints (the routes file is not in the sources; the paths are
  the spec's table).\<close>

datatype endpoint = Add | List | ById | Stock | Delete | Update

fun handle :: "env \<Rightarrow> endpoint \<Rightarrow> request \<Rightarrow> server \<Rightarrow> server \<times> jval" where
  "handle env Add = addProduct env"
| "handle env List = productList env"
| "handle env ById = productById env"
| "handle env Stock = changeStock env"
| "handle env Delete = deleteProduct env"
| "handle env Update = updateProduct env"

section \<open>The network\<close>

text \<open>What the client's \<open>axios\<close> call meets: the request and its answer
  arrive, the request is lost, or the server handles it and the answer is
  lost.\<close>

datatype delivery = Delivered | RequestFailed string | ResponseLost string

text \<open>One round trip: the request, the server's handler, and what the
  client sees (\<open>Inl\<close> a network error's message, \<open>Inr\<close> the answer).\<close>

definition round_trip :: "env \<Rightarrow> delivery \<Rightarrow> endpoint \<Rightarrow> request \<Rightarrow> server \<Rightarrow> server \<times> (string + jval)" where
  "round_trip env dl ep req s =
     (case dl of
        Delivered \<Rightarrow> (let (s', r) = handle env ep req s in (s', Inr r))
      | RequestFailed m \<Rightarrow> (s, Inl m)
      | ResponseLost m \<Rightarrow> (fst (handle env ep req s), Inl m))"

declare addProduct_def [handler_defs] productList_def [handler_defs] productById_def [handler_defs]
  changeStock_def [handler_defs] deleteProduct_def [handler_defs] updateProduct_def [handler_defs]

section \<open>A sample environment\<close>

text \<open>A concrete environment and server state on which the theorems below are
  instantiated: a parser that reads a body field as a product name, an image
  host that rejects empty paths, a schema that requires a name.\<close>

definition sample_env :: env where
  "sample_env =
     \<lparr>json_parse = (\<lambda>v. case v of Some (JStr t) \<Rightarrow> Inr (JObj [(''name'', JStr t)])
                                | _ \<Rightarrow> Inl ''\"undefined\" is not valid JSON''),
      upload = (\<lambda>p. if p = [] then Inl ''Empty file'' else Inr (''https://img.host/'' @ p)),
      valid_doc = (\<lambda>d. jget d ''name'' \<noteq> None),
      valid_update = (\<lambda>d. True)\<rparr>"

definition sample_server :: server where
  "sample_server =
     \<lparr>db = \<lparr>docs = [(hex_pad 24 0, [(''name'', JStr ''Milk''), (''image'', image_val [''u0'']),
                                   (''inStock'', JBool True)])],
            next_id = 1\<rparr>,
      hosted = [''u0'']\<rparr>"

definition sample_add_req :: request where
  "sample_add_req = \<lparr>body = [(''productData'', JStr ''Milk'')], params = [], files = Some [''f1'']\<rparr>"

definition sample_edit_req :: request where
  "sample_edit_req =
     \<lparr>body = [(''name'', JStr ''Oat milk''), (''offerPrice'', JStr ''45'')],
      params = [(''id'', hex_pad 24 0)], files = None\<rparr>"

definition sample_reimage_req :: request where
  "sample_reimage_req =
     \<lparr>body = [(''name'', JStr ''Milk 2L'')], params = [(''id'', hex_pad 24 0)], files = Some [''f2'', ''f3'']\<rparr>"

definition sample_byid_req :: request where
  "sample_byid_req = \<lparr>body = [(''id'', JStr (hex_pad 24 0))], params = [], files = None\<rparr>"

definition sample_delete_req :: "string \<Rightarrow> request" where
  "sample_delete_req i = \<lparr>body = [], params = [(''id'', i)], files = None\<rparr>"

definition sample_stock_req :: "string \<Rightarrow> bool \<Rightarrow> request" where
  "sample_stock_req i b = \<lparr>body = [(''id'', JStr i), (''inStock'', JBool b)], params = [], files = None\<rparr>"

definition sample_orphan_req :: request where
  "sample_orphan_req = \<lparr>body = [(''productData'', JStr ''Milk'')], params = [], files = Some [''f1'', [], ''f2'']\<rparr>"

lemmas sample_defs = sample_env_def sample_server_def sample_add_req_def sample_edit_req_def
  sample_reimage_req_def sample_delete_req_def sample_stock_req_def sample_orphan_req_def

lemmas eval_defs = handler_defs upload_all_def create_def find_by_id_and_update_def
  find_by_id_and_delete_def find_by_id_def find_all_def schema_filter_def product_paths_def
  jmerge_def image_val_def fresh_oid_def update_data_def update_uploads_def with_images_def
  param_id_def stock_update_def replace_doc_def remove_doc_def cast_oid_def doc_json_def respond_def
  hex_pad_all_hex Let_def

section \<open>Lemmas on the network\<close>

lemma round_trip_state:
  "fst (round_trip env dl ep req s) = s \<or> fst (round_trip env dl ep req s) = fst (handle env ep req s)"
  by (cases dl) (auto simp: round_trip_def split: prod.splits)

lemma round_trip_delivered:
  "round_trip env Delivered ep req s = (fst (handle env ep req s), Inr (snd (handle env ep req s)))"
  by (simp add: round_trip_def split: prod.splits)

section \<open>Lemmas on uploads\<close>

lemma promise_all_Inr: "promise_all rs = Inr xs \<Longrightarrow> xs = fulfilled rs \<and> length xs = length rs"
  by (induction rs arbitrary: xs) (auto split: sum.splits)

lemma promise_all_Inl: "promise_all rs = Inl e \<Longrightarrow> Inl e \<in> set rs"
  by (induction rs) (auto split: sum.splits)

lemma promise_all_all_Inr: "(\<forall>r\<in>set rs. \<exists>x. r = Inr x) \<Longrightarrow> promise_all rs = Inr (fulfilled rs)"
  by (induction rs) auto

lemma upload_all_db [simp]: "db (snd (upload_all env fs s)) = db s"
  by (simp add: upload_all_def Let_def)

lemma upload_all_state:
  "snd (upload_all env fs s) = s\<lparr>hosted := hosted s @ fulfilled (map (upload env) fs)\<rparr>"
  by (simp add: upload_all_def Let_def)

lemma upload_all_ok:
  "upload_all env fs s = (Inr urls, s1) \<Longrightarrow>
   length urls = length fs \<and> s1 = s\<lparr>hosted := hosted s @ urls\<rparr>"
  by (auto simp: upload_all_def Let_def dest: promise_all_Inr)

lemma upload_all_fail:
  "upload_all env fs s = (Inl e, s1) \<Longrightarrow>
   s1 = s\<lparr>hosted := hosted s @ fulfilled (map (upload env) fs)\<rparr> \<and> Inl e \<in> set (map (upload env) fs)"
  by (auto simp: upload_all_def Let_def dest: promise_all_Inl)

lemma create_image_key:
  "create valid (jput ''image'' v (obj_spread pd)) st = Inr ((i, d), st') \<Longrightarrow> jget d ''image'' = Some v"
  using jget_jmerge_Nil_filter [where P = "\<lambda>a. a \<in> set product_paths", OF _ obj_spread_image_key]
  by (auto simp: create_def Let_def schema_filter_def product_paths_def split: if_splits)

section \<open>Lemmas on the handlers\<close>


lemma addProduct_cases:
  assumes "addProduct env req s = (s', r)"
  obtains (parse) e where "json_parse env (jget (body req) ''productData'') = Inl e" "s' = s" "r = respond False e"
  | (nofiles) "files req = None" "s' = s"
      "r = respond False ''Cannot read properties of undefined (reading map)''"
  | (upload) pd imgs e where "json_parse env (jget (body req) ''productData'') = Inr pd" "files req = Some imgs"
      "upload_all env imgs s = (Inl e, s')" "r = respond False e"
  | (invalid) pd imgs urls e where "json_parse env (jget (body req) ''productData'') = Inr pd"
      "files req = Some imgs" "upload_all env imgs s = (Inr urls, s')"
      "create (valid_doc env) (jput ''image'' (image_val urls) (obj_spread pd)) (db s') = Inl e"
      "r = respond False e"
  | (created) pd imgs urls s1 p st' where "json_parse env (jget (body req) ''productData'') = Inr pd"
      "files req = Some imgs" "upload_all env imgs s = (Inr urls, s1)"
      "create (valid_doc env) (jput ''image'' (image_val urls) (obj_spread pd)) (db s1) = Inr (p, st')"
      "s' = s1\<lparr>db := st'\<rparr>" "r = respond True ''Product Added''"
  using assms
  by (auto simp: addProduct_def split: sum.splits option.splits prod.splits)

lemma respond_inj [simp]: "respond a m = respond b n \<longleftrightarrow> a = b \<and> m = n"
  by (simp add: respond_def)

text \<open>What a successful \<open>addProduct\<close> stores: the parsed object's schema
  fields as the parse left them, and the new image list.\<close>

lemma addProduct_stored_fields:
  assumes "addProduct env req s = (s', respond True ''Product Added'')"
    "json_parse env (jget (body req) ''productData'') = Inr (JObj fs)"
  shows "\<exists>i d. docs (db s') = docs (db s) @ [(i, d)] \<and>
           (\<forall>k\<in>set product_paths. k \<noteq> ''image'' \<longrightarrow> jget d k = jget (jmerge [] fs) k)"
  using assms(1)
proof (cases rule: addProduct_cases)
  case (created pd imgs urls s1 p st')
  obtain i d where p: "p = (i, d)" by (cases p)
  have pd: "pd = JObj fs" using created(1) assms(2) by simp
  have s1: "db s1 = db s" using created(3) upload_all_db [of env imgs s] by simp
  have c: "create (valid_doc env) (jput ''image'' (image_val urls) (jmerge [] fs)) (db s) = Inr ((i, d), st')"
    using created(4) p pd s1 by simp
  have dk: "distinct (keys (jput ''image'' (image_val urls) (jmerge [] fs)))"
    using distinct_keys_jmerge [of "[]" fs] distinct_keys_jput by (simp add: keys_def)
  have "\<forall>k\<in>set product_paths. k \<noteq> ''image'' \<longrightarrow> jget d k = jget (jmerge [] fs) k"
    using create_field [OF c _ dk] by simp
  moreover have "docs (db s') = docs (db s) @ [(i, d)]" using create_result [OF c] created(5) by simp
  ultimately show ?thesis by blast
qed auto

lemma updateProduct_cases:
  assumes "updateProduct env req s = (s', r)"
  obtains (data) e where "update_data env req = Inl e" "s' = s" "r = respond False e"
  | (upload) pd e where "update_data env req = Inr pd" "update_uploads env req s = (Inl e, s')"
      "r = respond False e"
  | (assign) pd urls e where "update_data env req = Inr pd" "update_uploads env req s = (Inr urls, s')"
      "with_images pd urls = Inl e" "r = respond False e"
  | (store_err) pd urls pd' e where "update_data env req = Inr pd"
      "update_uploads env req s = (Inr urls, s')" "with_images pd urls = Inr pd'"
      "find_by_id_and_update True (valid_update env) (param_id req) pd' (db s') = Inl e"
      "r = respond False e"
  | (missing) pd urls s1 pd' st' where "update_data env req = Inr pd"
      "update_uploads env req s = (Inr urls, s1)" "with_images pd urls = Inr pd'"
      "find_by_id_and_update True (valid_update env) (param_id req) pd' (db s1) = Inr (None, st')"
      "s' = s1\<lparr>db := st'\<rparr>" "r = respond False ''Product not found''"
  | (updated) pd urls s1 pd' p st' where "update_data env req = Inr pd"
      "update_uploads env req s = (Inr urls, s1)" "with_images pd urls = Inr pd'"
      "find_by_id_and_update True (valid_update env) (param_id req) pd' (db s1) = Inr (Some p, st')"
      "s' = s1\<lparr>db := st'\<rparr>"
      "r = JObj [(''success'', JBool True), (''message'', JStr ''Product updated successfully''),
                 (''product'', doc_json p)]"
proof (cases "update_data env req")
  case (Inl e)
  show ?thesis by (insert assms Inl, rule data [of e], simp_all add: updateProduct_def)
next
  case (Inr pd)
  obtain ur s1 where u: "update_uploads env req s = (ur, s1)" by (cases "update_uploads env req s")
  show ?thesis
  proof (cases ur)
    case (Inl e)
    show ?thesis by (insert assms Inr u Inl, rule upload [of pd e], simp_all add: updateProduct_def)
  next
    case (Inr urls)
    note ur = Inr
    show ?thesis
    proof (cases "with_images pd urls")
      case (Inl e)
      show ?thesis
        by (insert assms \<open>update_data env req = Inr pd\<close> u ur Inl, rule assign [of pd urls e],
            simp_all add: updateProduct_def)
    next
      case (Inr pd')
      note wi = Inr
      show ?thesis
      proof (cases "find_by_id_and_update True (valid_update env) (param_id req) pd' (db s1)")
        case (Inl e)
        show ?thesis
          by (insert assms \<open>update_data env req = Inr pd\<close> u ur wi Inl, rule store_err [of pd urls pd' e],
              simp_all add: updateProduct_def)
      next
        case (Inr res)
        obtain ro st' where res: "res = (ro, st')" by (cases res)
        show ?thesis
        proof (cases ro)
          case None
          show ?thesis
            by (insert assms \<open>update_data env req = Inr pd\<close> u ur wi Inr res None,
                rule missing [of pd urls s1 pd' st'], simp_all add: updateProduct_def)
        next
          case (Some p)
          show ?thesis
            by (insert assms \<open>update_data env req = Inr pd\<close> u ur wi Inr res Some,
                rule updated [of pd urls s1 pd' p st'], simp_all add: updateProduct_def)
        qed
      qed
    qed
  qed
qed

lemma update_uploads_none:
  "files req = None \<or> files req = Some [] \<Longrightarrow> update_uploads env req s = (Inr [], s)"
  by (auto simp: update_uploads_def)

lemma update_uploads_some:
  "files req = Some imgs \<Longrightarrow> imgs \<noteq> [] \<Longrightarrow> update_uploads env req s = upload_all env imgs s"
  by (simp add: update_uploads_def)

lemma with_images_Nil [simp]: "with_images pd [] = Inr pd"
  by (simp add: with_images_def)

lemma changeStock_state:
  "fst (changeStock env req s) =
     (case find_by_id_and_update False (valid_update env) (jget (body req) ''id'') (JObj (stock_update req)) (db s) of
        Inl e \<Rightarrow> s | Inr (_, st') \<Rightarrow> s\<lparr>db := st'\<rparr>)"
  by (simp add: changeStock_def split: sum.splits prod.splits)

text \<open>The shape of a successful creation.\<close>

lemma addProduct_success_shape:
  assumes "addProduct env req s = (s', respond True ''Product Added'')" "files req = Some imgs"
  shows "\<exists>urls i d. length urls = length imgs \<and> hosted s' = hosted s @ urls \<and>
           docs (db s') = docs (db s) @ [(i, d)] \<and> jget d ''image'' = Some (image_val urls)"
  using assms(1)
proof (cases rule: addProduct_cases)
  case (created pd imgs' urls s1 p st')
  obtain i d where p: "p = (i, d)" by (cases p)
  from created assms(2) have up: "length urls = length imgs" "s1 = s\<lparr>hosted := hosted s @ urls\<rparr>"
    using upload_all_ok by auto
  from created(4) p have "create (valid_doc env) (jput ''image'' (image_val urls) (obj_spread pd)) (db s1) =
      Inr ((i, d), st')" by simp
  then have "jget d ''image'' = Some (image_val urls)" by (rule create_image_key)
  moreover from create_result [OF created(4)] p have "docs st' = docs (db s1) @ [(i, d)]" by simp
  ultimately show ?thesis using created up by auto
qed (use assms(2) in auto)

lemma addProduct_success_answer:
  "addProduct env req s = (s', r) \<Longrightarrow> r = respond True m \<Longrightarrow> m = ''Product Added''"
  by (erule addProduct_cases) auto

text \<open>The frame of an update without images: no document's image list moves.\<close>

lemma updateProduct_image_frame:
  assumes "updateProduct env req s = (s', r)" "files req = None \<or> files req = Some []"
    "\<forall>u. update_data env req = Inr (JObj u) \<longrightarrow> ''image'' \<notin> set (keys u)"
  shows "map_option (\<lambda>d. jget d ''image'') \<circ> store_map (db s') =
         map_option (\<lambda>d. jget d ''image'') \<circ> store_map (db s)"
proof -
  have u: "update_uploads env req s = (Inr [], s)" using assms(2) by (rule update_uploads_none)
  from assms(1) show ?thesis
  proof (cases rule: updateProduct_cases)
    case (missing pd urls s1 pd' st')
    with u have "s1 = s" by simp
    with missing(4) have "st' = db s" using update_none_unchanged by blast
    with missing show ?thesis by simp
  next
    case (updated pd urls s1 pd' p st')
    with u have s1: "s1 = s" "pd' = pd" by auto
    from updated s1 obtain v where pd: "pd = JObj v" using update_Inr_obj by blast
    with updated assms(3) have "''image'' \<notin> set (keys v)" by simp
    with updated s1 pd show ?thesis using update_frame_key by simp
  qed (use u in auto)
qed

lemma changeStock_store_inv:
  assumes "store_inv (db s)"
  shows "store_inv (db (fst (changeStock env req s)))"
proof (cases "find_by_id_and_update False (valid_update env) (jget (body req) ''id'')
                (JObj (stock_update req)) (db s)")
  case (Inl e)
  then show ?thesis using assms by (simp add: changeStock_def)
next
  case (Inr r)
  obtain x st' where r: "r = (x, st')" by (cases r)
  have "store_inv st'" using update_store_inv [OF assms] Inr r by blast
  with Inr r show ?thesis by (simp add: changeStock_def)
qed

lemma deleteProduct_store_inv:
  assumes "store_inv (db s)"
  shows "store_inv (db (fst (deleteProduct env req s)))"
proof (cases "find_by_id_and_delete (param_id req) (db s)")
  case (Inl e)
  then show ?thesis using assms by (simp add: deleteProduct_def)
next
  case (Inr r)
  obtain x st' where r: "r = (x, st')" by (cases r)
  have "store_inv st'" using delete_store_inv [OF assms] Inr r by blast
  with Inr r assms show ?thesis by (simp add: deleteProduct_def)
qed

lemma productById_state: "fst (productById env req s) = s"
  by (simp add: productById_def split: sum.split)

lemma addProduct_store_inv:
  assumes "store_inv (db s)" "next_id (db s) < 16 ^ 24"
  shows "store_inv (db (fst (addProduct env req s)))"
proof -
  obtain s' r where h: "addProduct env req s = (s', r)" by (cases "addProduct env req s")
  from h have "store_inv (db s')"
  proof (cases rule: addProduct_cases)
    case (upload pd imgs e)
    then show ?thesis using assms(1) upload_all_db [of env imgs s] by simp
  next
    case (invalid pd imgs urls e)
    then show ?thesis using assms(1) upload_all_db [of env imgs s] by simp
  next
    case (created pd imgs urls s1 p st')
    have "db s1 = db s" using created(3) upload_all_db [of env imgs s] by simp
    then show ?thesis using created create_store_inv [OF assms(1,2)] by auto
  qed (use assms in simp_all)
  with h show ?thesis by simp
qed

lemma update_uploads_db: "update_uploads env req s = (x, s1) \<Longrightarrow> db s1 = db s"
  by (auto simp: update_uploads_def split: option.splits if_splits)
     (metis snd_conv upload_all_db)

lemma updateProduct_store_inv:
  assumes "store_inv (db s)"
  shows "store_inv (db (fst (updateProduct env req s)))"
proof -
  obtain s' r where h: "updateProduct env req s = (s', r)" by (cases "updateProduct env req s")
  from h have "store_inv (db s')"
  proof (cases rule: updateProduct_cases)
    case (upload pd e)
    then show ?thesis using assms update_uploads_db by metis
  next
    case (assign pd urls e)
    then show ?thesis using assms update_uploads_db by metis
  next
    case (store_err pd urls pd' e)
    then show ?thesis using assms update_uploads_db by metis
  next
    case (missing pd urls s1 pd' st')
    have "db s1 = db s" using missing(2) by (rule update_uploads_db)
    then show ?thesis using missing update_store_inv [OF assms] by simp
  next
    case (updated pd urls s1 pd' p st')
    have "db s1 = db s" using updated(2) by (rule update_uploads_db)
    then show ?thesis using updated update_store_inv [OF assms] by simp
  qed (use assms in simp)
  with h show ?thesis by simp
qed

lemma handle_store_inv_step:
  assumes "store_inv (db s)" "next_id (db s) < 16 ^ 24"
  shows "store_inv (db (fst (handle env ep req s)))"
  using assms
  by (cases ep) (simp_all add: addProduct_store_inv changeStock_store_inv deleteProduct_store_inv
      updateProduct_store_inv productById_state productList_def)

section \<open>Properties of the handlers\<close>

text \<open>
  C1. A successful \<open>addProduct\<close> appends exactly one document to the
  collection, and that document's \<open>image\<close> list holds one URL per attached
  file, the URLs the upload returned, which are now on the image host.
\<close>

theorem addProduct_image_count:
  assumes "addProduct env req s = (s', respond True ''Product Added'')" "files req = Some imgs"
  shows "\<exists>urls i d. length urls = length imgs \<and> hosted s' = hosted s @ urls \<and>
           docs (db s') = docs (db s) @ [(i, d)] \<and> jget d ''image'' = Some (image_val urls)"
  using assms by (rule addProduct_success_shape)

theorem addProduct_image_count_witness:
  "addProduct sample_env sample_add_req sample_server =
     (fst (addProduct sample_env sample_add_req sample_server), respond True ''Product Added'') \<and>
   (\<exists>urls i d. length urls = 1 \<and>
      hosted (fst (addProduct sample_env sample_add_req sample_server)) = hosted sample_server @ urls \<and>
      docs (db (fst (addProduct sample_env sample_add_req sample_server))) = docs (db sample_server) @ [(i, d)] \<and>
      jget d ''image'' = Some (image_val urls))"
proof -
  have h: "addProduct sample_env sample_add_req sample_server =
     (fst (addProduct sample_env sample_add_req sample_server), respond True ''Product Added'')"
    by (simp add: sample_defs eval_defs)
  have f: "files sample_add_req = Some [''f1'']" by (simp add: sample_defs)
  show ?thesis using addProduct_image_count [OF h f] h by simp
qed

text \<open>
  C2. An \<open>updateProduct\<close> call with no attached images, whose update data
  has no \<open>image\<close> key, leaves the \<open>image\<close> list of every document as it was.
\<close>

theorem updateProduct_keeps_images:
  assumes "updateProduct env req s = (s', r)" "files req = None \<or> files req = Some []"
    "\<forall>u. update_data env req = Inr (JObj u) \<longrightarrow> ''image'' \<notin> set (keys u)"
  shows "map_option (\<lambda>d. jget d ''image'') \<circ> store_map (db s') =
         map_option (\<lambda>d. jget d ''image'') \<circ> store_map (db s)"
  using assms by (rule updateProduct_image_frame)

theorem updateProduct_keeps_images_witness:
  "updateProduct sample_env sample_edit_req sample_server =
     (fst (updateProduct sample_env sample_edit_req sample_server),
      snd (updateProduct sample_env sample_edit_req sample_server)) \<and>
   files sample_edit_req = None \<and>
   update_data sample_env sample_edit_req = Inr (JObj (body sample_edit_req)) \<and>
   ''image'' \<notin> set (keys (body sample_edit_req)) \<and>
   map_option (\<lambda>d. jget d ''image'') \<circ> store_map (db (fst (updateProduct sample_env sample_edit_req sample_server))) =
   map_option (\<lambda>d. jget d ''image'') \<circ> store_map (db sample_server)"
proof -
  have h1: "updateProduct sample_env sample_edit_req sample_server =
     (fst (updateProduct sample_env sample_edit_req sample_server),
      snd (updateProduct sample_env sample_edit_req sample_server))" by simp
  have f: "files sample_edit_req = None" by (simp add: sample_defs)
  have d: "update_data sample_env sample_edit_req = Inr (JObj (body sample_edit_req))"
    by (simp add: sample_defs update_data_def)
  have k: "''image'' \<notin> set (keys (body sample_edit_req))" by (simp add: sample_defs keys_def)
  have h3: "\<forall>u. update_data sample_env sample_edit_req = Inr (JObj u) \<longrightarrow> ''image'' \<notin> set (keys u)"
    using d k by simp
  show ?thesis using updateProduct_keeps_images [OF h1 _ h3] f d k by simp
qed



text \<open>
  C4. \<open>deleteProduct\<close> with a well-formed id that names no document reports
  \<open>success: true\<close> and leaves the state unchanged: the result of
  \<open>findByIdAndDelete\<close> is never checked.
\<close>

theorem deleteProduct_absent_reports_success:
  assumes "map_of (params req) ''id'' = Some i" "cast_oid i = Some j" "store_map (db s) j = None"
  shows "deleteProduct env req s = (s, respond True ''Product deleted successfully'')"
  using assms cast_oid_nonempty [OF assms(2)] delete_absent [OF assms(2)]
  by (simp add: deleteProduct_def param_id_def store_map_def)

theorem deleteProduct_absent_reports_success_witness:
  "map_of (params (sample_delete_req (hex_pad 24 5))) ''id'' = Some (hex_pad 24 5) \<and>
   cast_oid (hex_pad 24 5) = Some (hex_pad 24 5) \<and> store_map (db sample_server) (hex_pad 24 5) = None \<and>
   deleteProduct sample_env (sample_delete_req (hex_pad 24 5)) sample_server =
     (sample_server, respond True ''Product deleted successfully'')"
proof -
  have h1: "map_of (params (sample_delete_req (hex_pad 24 5))) ''id'' = Some (hex_pad 24 5)"
    by (simp add: sample_delete_req_def)
  have h2: "cast_oid (hex_pad 24 5) = Some (hex_pad 24 5)" by (simp add: cast_oid_def hex_pad_all_hex)
  have h3: "store_map (db sample_server) (hex_pad 24 5) = None"
    by (simp add: sample_server_def store_map_def)
  show ?thesis using deleteProduct_absent_reports_success [OF h1 h2 h3] h1 h2 h3 by simp
qed

text \<open>
  C5. \<open>deleteProduct\<close> without an id path parameter, or with an empty one,
  answers \<open>{success: false, message: "Product ID is required"}\<close> and changes nothing.
\<close>

theorem deleteProduct_requires_id:
  assumes "map_of (params req) ''id'' = None \<or> map_of (params req) ''id'' = Some []"
  shows "deleteProduct env req s = (s, respond False ''Product ID is required'')"
  using assms by (auto simp: deleteProduct_def param_id_def)

theorem deleteProduct_requires_id_witness:
  "map_of (params (sample_delete_req [])) ''id'' = Some [] \<and>
   deleteProduct sample_env (sample_delete_req []) sample_server =
     (sample_server, respond False ''Product ID is required'')"
proof -
  have h: "map_of (params (sample_delete_req [])) ''id'' = Some []" by (simp add: sample_delete_req_def)
  show ?thesis using deleteProduct_requires_id [of "sample_delete_req []"] h by simp
qed

text \<open>
  C6. \<open>deleteProduct\<close> of a stored product removes exactly that document: the
  store's map loses the id and nothing else, and the answer is a success.
\<close>

theorem deleteProduct_removes:
  assumes "map_of (params req) ''id'' = Some i" "cast_oid i = Some j" "store_map (db s) j = Some d"
  shows "deleteProduct env req s =
           (s\<lparr>db := (db s)\<lparr>docs := remove_doc j (docs (db s))\<rparr>\<rparr>, respond True ''Product deleted successfully'') \<and>
         store_map (db (fst (deleteProduct env req s))) = (store_map (db s))(j := None)"
proof -
  have del: "find_by_id_and_delete (Some (JStr i)) (db s) =
               Inr (Some (j, d), (db s)\<lparr>docs := remove_doc j (docs (db s))\<rparr>)"
    using assms(2,3) by (intro delete_present) (simp_all add: store_map_def)
  then have "deleteProduct env req s =
           (s\<lparr>db := (db s)\<lparr>docs := remove_doc j (docs (db s))\<rparr>\<rparr>, respond True ''Product deleted successfully'')"
    using assms(1) cast_oid_nonempty [OF assms(2)] by (simp add: deleteProduct_def param_id_def)
  moreover have "store_map ((db s)\<lparr>docs := remove_doc j (docs (db s))\<rparr>) = (store_map (db s))(j := None)"
    using delete_store_map [OF del] by simp
  ultimately show ?thesis by simp
qed

theorem deleteProduct_removes_witness:
  "map_of (params (sample_delete_req (hex_pad 24 0))) ''id'' = Some (hex_pad 24 0) \<and>
   cast_oid (hex_pad 24 0) = Some (hex_pad 24 0) \<and>
   store_map (db sample_server) (hex_pad 24 0) = Some (snd (hd (docs (db sample_server)))) \<and>
   store_map (db (fst (deleteProduct sample_env (sample_delete_req (hex_pad 24 0)) sample_server))) =
     (store_map (db sample_server))(hex_pad 24 0 := None)"
proof -
  have h1: "map_of (params (sample_delete_req (hex_pad 24 0))) ''id'' = Some (hex_pad 24 0)"
    by (simp add: sample_delete_req_def)
  have h2: "cast_oid (hex_pad 24 0) = Some (hex_pad 24 0)" by (simp add: cast_oid_def hex_pad_all_hex)
  have h3: "store_map (db sample_server) (hex_pad 24 0) = Some (snd (hd (docs (db sample_server))))"
    by (simp add: sample_server_def store_map_def)
  show ?thesis using deleteProduct_removes [OF h1 h2 h3] h1 h2 h3 by blast
qed

text \<open>
  C7. \<open>changeStock\<close> is idempotent: sending the same request twice leaves the
  server in the state one request leaves it in.
\<close>

theorem changeStock_idempotent:
  "fst (changeStock env req (fst (changeStock env req s))) = fst (changeStock env req s)"
proof (cases "find_by_id_and_update False (valid_update env) (jget (body req) ''id'')
                (JObj (stock_update req)) (db s)")
  case (Inl e)
  then show ?thesis by (simp add: changeStock_state)
next
  case (Inr res)
  obtain r st' where res: "res = (r, st')" by (cases res)
  have l: "length (stock_update req) \<le> 1" by (simp add: stock_update_def split: option.splits)
  from update_repeat_single [OF l] Inr res obtain r' where
    "find_by_id_and_update False (valid_update env) (jget (body req) ''id'') (JObj (stock_update req)) st' =
       Inr (r', st')" by blast
  with Inr res show ?thesis by (simp add: changeStock_state)
qed

text \<open>
  C8. \<open>changeStock\<close> with a well-formed id that names no document still
  reports \<open>success: true, "Stock Updated"\<close>, and changes nothing.
\<close>

theorem changeStock_absent_reports_success:
  assumes "jget (body req) ''id'' = Some (JStr i)" "cast_oid i = Some j" "store_map (db s) j = None"
  shows "changeStock env req s = (s, respond True ''Stock Updated'')"
  using assms update_absent [OF assms(2), of "db s" False]
  by (simp add: changeStock_def store_map_def)

theorem changeStock_absent_reports_success_witness:
  "jget (body (sample_stock_req (hex_pad 24 7) False)) ''id'' = Some (JStr (hex_pad 24 7)) \<and>
   cast_oid (hex_pad 24 7) = Some (hex_pad 24 7) \<and> store_map (db sample_server) (hex_pad 24 7) = None \<and>
   changeStock sample_env (sample_stock_req (hex_pad 24 7) False) sample_server =
     (sample_server, respond True ''Stock Updated'')"
proof -
  have h1: "jget (body (sample_stock_req (hex_pad 24 7) False)) ''id'' = Some (JStr (hex_pad 24 7))"
    by (simp add: sample_stock_req_def)
  have h2: "cast_oid (hex_pad 24 7) = Some (hex_pad 24 7)" by (simp add: cast_oid_def hex_pad_all_hex)
  have h3: "store_map (db sample_server) (hex_pad 24 7) = None"
    by (simp add: sample_server_def store_map_def)
  show ?thesis using changeStock_absent_reports_success [OF h1 h2 h3] h1 h2 h3 by simp
qed

text \<open>
  C9. When an image upload of \<open>addProduct\<close> fails, no document is created and
  the request fails with the upload's message, but every upload that did
  succeed stays on the image host (orphaned files).
\<close>

theorem addProduct_upload_failure_orphans:
  assumes "json_parse env (jget (body req) ''productData'') = Inr pd" "files req = Some imgs"
    "promise_all (map (upload env) imgs) = Inl e"
  shows "addProduct env req s =
           (s\<lparr>hosted := hosted s @ fulfilled (map (upload env) imgs)\<rparr>, respond False e)"
  using assms by (simp add: addProduct_def upload_all_def)

theorem addProduct_upload_failure_orphans_witness:
  "json_parse sample_env (jget (body sample_orphan_req) ''productData'') = Inr (JObj [(''name'', JStr ''Milk'')]) \<and>
   files sample_orphan_req = Some [''f1'', [], ''f2''] \<and>
   promise_all (map (upload sample_env) [''f1'', [], ''f2'']) = Inl ''Empty file'' \<and>
   addProduct sample_env sample_orphan_req sample_server =
     (sample_server\<lparr>hosted := hosted sample_server @ [''https://img.host/f1'', ''https://img.host/f2'']\<rparr>,
      respond False ''Empty file'')"
proof -
  have h1: "json_parse sample_env (jget (body sample_orphan_req) ''productData'') =
              Inr (JObj [(''name'', JStr ''Milk'')])" by (simp add: sample_defs)
  have h2: "files sample_orphan_req = Some [''f1'', [], ''f2'']" by (simp add: sample_defs)
  have h3: "promise_all (map (upload sample_env) [''f1'', [], ''f2'']) = Inl ''Empty file''"
    by (simp add: sample_defs)
  have f: "fulfilled (map (upload sample_env) [''f1'', [], ''f2'']) = [''https://img.host/f1'', ''https://img.host/f2'']"
    by (simp add: sample_defs)
  show ?thesis using addProduct_upload_failure_orphans [OF h1 h2 h3] h1 h2 h3 f by simp
qed






text \<open>
  C36. \<open>productById\<close> answers from the abstract map: for an id string that
  casts to an ObjectId (any case of hex digits) it answers \<open>success: true\<close>
  with the stored product, or with \<open>product: null\<close> when no document has
  that id, and changes nothing.
\<close>

theorem productById_lookup:
  assumes "jget (body req) ''id'' = Some (JStr t)" "cast_oid t = Some i"
  shows "productById env req s =
           (s, JObj [(''success'', JBool True),
                     (''product'', case store_map (db s) i of None \<Rightarrow> JNull | Some d \<Rightarrow> doc_json (i, d))])"
  using assms by (simp add: productById_def find_by_id_def store_map_def split: option.split)

theorem productById_lookup_witness:
  "jget (body sample_byid_req) ''id'' = Some (JStr (hex_pad 24 0)) \<and>
   cast_oid (hex_pad 24 0) = Some (hex_pad 24 0) \<and>
   productById sample_env sample_byid_req sample_server =
     (sample_server, JObj [(''success'', JBool True), (''product'', doc_json (hex_pad 24 0,
        [(''name'', JStr ''Milk''), (''image'', image_val [''u0'']), (''inStock'', JBool True)]))])"
proof -
  have h: "jget (body sample_byid_req) ''id'' = Some (JStr (hex_pad 24 0))"
    "cast_oid (hex_pad 24 0) = Some (hex_pad 24 0)"
    by (simp_all add: sample_byid_req_def)
  have m: "store_map (db sample_server) (hex_pad 24 0) =
     Some [(''name'', JStr ''Milk''), (''image'', image_val [''u0'']), (''inStock'', JBool True)]"
    by (simp add: sample_server_def store_map_def)
  show ?thesis using productById_lookup [OF h, of sample_env sample_server] h m by simp
qed

end
