(* ===== verification/ProductListView.thy ===== *)
theory ProductListView
  imports Controller
begin

text \<open>
  The seller's product table of \<open>src/client/src/pages/seller/ProductList.jsx\<close>
  and its edit modal, composed with the controller. The view's state is the
  component's \<open>useState\<close> hooks (\<open>isEditing\<close>, \<open>selectedProduct\<close>,
  \<open>editData\<close>), the shared product collection of the app context and the
  toasts shown. A user action on the view is one \<open>ui_event\<close>; the handlers
  \<open>toggleStock\<close>, \<open>deleteProduct\<close> and \<open>updateProduct\<close> send a request to
  the matching endpoint of \<open>Controller\<close>, and on \<open>data.success\<close> call
  \<open>fetchProducts\<close>, which re-reads the list endpoint (the app context is not
  in the sources; \<open>fetch_products\<close> follows the spec). Whether the request
  reaches the server and whether its answer comes back is the \<open>delivery\<close>
  of the step, so a lost answer after a change on the server is a step of
  its own.
\<close>

section \<open>State and events\<close>

record view =
  products :: "jval list"
  isEditing :: bool
  selectedProduct :: "jval option"
  editData :: fields
  toasts :: "toast list"

definition view_init :: view where
  "view_init = \<lparr>products = [], isEditing = False, selectedProduct = None,
                editData = [(''name'', JStr []), (''category'', JStr []), (''offerPrice'', JStr []),
                            (''quantity'', JStr [])],
                toasts = []\<rparr>"

text \<open>Events: the controls of one row (by its index in the table), the
  inputs and buttons of the modal.\<close>

datatype ui_event =
    ToggleRow nat
  | DeleteRow nat
  | EditRow nat
  | EditField string string
  | CancelEdit
  | SaveEdit
  | Fetch

record sys =
  srv :: server
  ui :: view

section \<open>Reading answers\<close>

definition resp_fields :: "jval \<Rightarrow> fields" where
  "resp_fields r = (case r of JObj fs \<Rightarrow> fs | _ \<Rightarrow> [])"

definition resp_success :: "jval \<Rightarrow> bool" where
  "resp_success r = truthy (jget (resp_fields r) ''success'')"

definition resp_message :: "jval \<Rightarrow> string" where
  "resp_message r = (case jget (resp_fields r) ''message'' of Some (JStr m) \<Rightarrow> m | _ \<Rightarrow> [])"

text \<open>A template-literal segment of a product id: products come from the
  list endpoint, whose ids are strings.\<close>

fun id_segment :: "jval option \<Rightarrow> string" where
  "id_segment (Some (JStr s)) = s"
| "id_segment (Some JNull) = ''null''"
| "id_segment None = ''undefined''"
| "id_segment (Some (JBool b)) = (if b then ''true'' else ''false'')"
| "id_segment (Some (JObj _)) = ''[object Object]''"
| "id_segment (Some _) = ''?''"

definition opt_field :: "string \<Rightarrow> jval option \<Rightarrow> fields" where
  "opt_field k vo = (case vo of None \<Rightarrow> [] | Some v \<Rightarrow> [(k, v)])"

section \<open>The app context's refetch\<close>

definition list_req :: request where
  "list_req = \<lparr>body = [], params = [], files = None\<rparr>"

definition fetch_products :: "env \<Rightarrow> server \<Rightarrow> view \<Rightarrow> view" where
  "fetch_products env s v =
     (let r = snd (productList env list_req s) in
      if resp_success r
      then v\<lparr>products := (case jget (resp_fields r) ''products'' of Some (JArr ps) \<Rightarrow> ps | _ \<Rightarrow> [])\<rparr>
      else v\<lparr>toasts := toasts v @ [ToastError (resp_message r)]\<rparr>)"

section \<open>Handlers\<close>

text \<open>The common tail of \<open>toggleStock\<close> and \<open>deleteProduct\<close>
  (lines 23--31, 40--48): refetch and a success toast, or an error toast.\<close>

definition after_answer :: "env \<Rightarrow> server \<Rightarrow> string + jval \<Rightarrow> view \<Rightarrow> view" where
  "after_answer env s a v =
     (case a of
        Inl m \<Rightarrow> v\<lparr>toasts := toasts v @ [ToastError m]\<rparr>
      | Inr r \<Rightarrow>
          if resp_success r
          then (let v' = fetch_products env s v in v'\<lparr>toasts := toasts v' @ [ToastSuccess (resp_message r)]\<rparr>)
          else v\<lparr>toasts := toasts v @ [ToastError (resp_message r)]\<rparr>)"

definition stock_req :: "jval option \<Rightarrow> bool \<Rightarrow> request" where
  "stock_req idv b = \<lparr>body = opt_field ''id'' idv @ [(''inStock'', JBool b)], params = [], files = None\<rparr>"

definition toggleStock :: "env \<Rightarrow> delivery \<Rightarrow> jval option \<Rightarrow> bool \<Rightarrow> sys \<Rightarrow> sys" where
  "toggleStock env dl idv b st =
     (let (s', a) = round_trip env dl Stock (stock_req idv b) (srv st) in
      \<lparr>srv = s', ui = after_answer env s' a (ui st)\<rparr>)"

definition delete_req :: "jval option \<Rightarrow> request" where
  "delete_req idv = \<lparr>body = [], params = [(''id'', id_segment idv)], files = None\<rparr>"

definition deleteProductView :: "env \<Rightarrow> delivery \<Rightarrow> jval option \<Rightarrow> sys \<Rightarrow> sys" where
  "deleteProductView env dl idv st =
     (let (s', a) = round_trip env dl Delete (delete_req idv) (srv st) in
      \<lparr>srv = s', ui = after_answer env s' a (ui st)\<rparr>)"

text \<open>\<open>updateProduct\<close> (lines 52--70): \<open>selectedProduct._id\<close> throws on
  \<open>null\<close> before any request; the JSON body is \<open>editData\<close>; on success the
  modal closes after the refetch, otherwise it stays open.\<close>

definition edit_req :: "jval \<Rightarrow> fields \<Rightarrow> request" where
  "edit_req p ed = \<lparr>body = ed, params = [(''id'', id_segment (jget (resp_fields p) ''_id''))], files = None\<rparr>"

definition updateProductView :: "env \<Rightarrow> delivery \<Rightarrow> sys \<Rightarrow> sys" where
  "updateProductView env dl st =
     (case selectedProduct (ui st) of
        None \<Rightarrow> st\<lparr>ui := (ui st)\<lparr>toasts := toasts (ui st) @
                   [ToastError ''Cannot read properties of null (reading _id)'']\<rparr>\<rparr>
      | Some p \<Rightarrow>
          (let (s', a) = round_trip env dl Update (edit_req p (editData (ui st))) (srv st); v = ui st in
           case a of
             Inl m \<Rightarrow> \<lparr>srv = s', ui = v\<lparr>toasts := toasts v @ [ToastError m]\<rparr>\<rparr>
           | Inr r \<Rightarrow>
               if resp_success r
               then (let v1 = v\<lparr>toasts := toasts v @ [ToastSuccess ''Product updated successfully!'']\<rparr>;
                         v2 = fetch_products env s' v1 in
                     \<lparr>srv = s', ui = v2\<lparr>isEditing := False\<rparr>\<rparr>)
               else \<lparr>srv = s', ui = v\<lparr>toasts := toasts v @ [ToastError (resp_message r)]\<rparr>\<rparr>))"

text \<open>The edit button of a row (lines 128--137): a snapshot of four fields.\<close>

definition snapshot :: "jval \<Rightarrow> fields" where
  "snapshot p = concat (map (\<lambda>k. opt_field k (jget (resp_fields p) k)) [''name'', ''category'', ''offerPrice'', ''quantity''])"

definition editRow :: "jval \<Rightarrow> view \<Rightarrow> view" where
  "editRow p v = v\<lparr>selectedProduct := Some p, editData := snapshot p, isEditing := True\<rparr>"

text \<open>The step of the whole view: a row event needs its row to be on screen,
  a modal event needs the modal to be open. \<open>Fetch\<close> is the app context's
  own call of \<open>fetchProducts\<close> (on mount).\<close>

fun view_step :: "env \<Rightarrow> delivery \<Rightarrow> sys \<Rightarrow> ui_event \<Rightarrow> sys option" where
  "view_step env dl st (ToggleRow n) =
     (if n < length (products (ui st))
      then (let p = products (ui st) ! n in
            Some (toggleStock env dl (jget (resp_fields p) ''_id'')
                    (\<not> truthy (jget (resp_fields p) ''inStock'')) st))
      else None)"
| "view_step env dl st (DeleteRow n) =
     (if n < length (products (ui st))
      then Some (deleteProductView env dl (jget (resp_fields (products (ui st) ! n)) ''_id'') st)
      else None)"
| "view_step env dl st (EditRow n) =
     (if n < length (products (ui st))
      then Some (st\<lparr>ui := editRow (products (ui st) ! n) (ui st)\<rparr>)
      else None)"
| "view_step env dl st (EditField k x) =
     (if isEditing (ui st) \<and> k \<in> {''name'', ''category'', ''offerPrice'', ''quantity''}
      then Some (st\<lparr>ui := (ui st)\<lparr>editData := jput k (JStr x) (editData (ui st))\<rparr>\<rparr>)
      else None)"
| "view_step env dl st CancelEdit =
     (if isEditing (ui st) then Some (st\<lparr>ui := (ui st)\<lparr>isEditing := False\<rparr>\<rparr>) else None)"
| "view_step env dl st SaveEdit =
     (if isEditing (ui st) then Some (updateProductView env dl st) else None)"
| "view_step env dl st Fetch = Some (st\<lparr>ui := fetch_products env (srv st) (ui st)\<rparr>)"

text \<open>Reachable states of the view: any event, any delivery, from a server
  state and the initial view.\<close>

inductive reach :: "env \<Rightarrow> sys \<Rightarrow> bool" for env where
  init: "reach env \<lparr>srv = s, ui = view_init\<rparr>"
| step: "reach env st \<Longrightarrow> view_step env dl st e = Some st' \<Longrightarrow> reach env st'"

text \<open>What the view keeps true: an open modal has its product, and the edit
  data holds only the four fields of the snapshot.\<close>

definition edit_keys :: "string set" where
  "edit_keys = {''name'', ''category'', ''offerPrice'', ''quantity''}"

definition view_inv :: "view \<Rightarrow> bool" where
  "view_inv v = ((isEditing v \<longrightarrow> selectedProduct v \<noteq> None) \<and> set (keys (editData v)) \<subseteq> edit_keys)"

text \<open>Sample states for the witnesses: the table loaded from the sample
  server, then the modal opened on its first row.\<close>

definition sample_loaded :: sys where
  "sample_loaded = \<lparr>srv = sample_server, ui = fetch_products sample_env sample_server view_init\<rparr>"

definition sample_editing :: sys where
  "sample_editing = sample_loaded\<lparr>ui := editRow (products (ui sample_loaded) ! 0) (ui sample_loaded)\<rparr>"

section \<open>Lemmas\<close>

lemma fetch_products_sync [simp]:
  "fetch_products env s v = v\<lparr>products := map doc_json (docs (db s))\<rparr>"
  by (simp add: fetch_products_def productList_def resp_success_def resp_fields_def find_all_def Let_def)

lemma after_answer_fields:
  "isEditing (after_answer env s a v) = isEditing v \<and>
   selectedProduct (after_answer env s a v) = selectedProduct v \<and>
   editData (after_answer env s a v) = editData v"
  by (simp add: after_answer_def Let_def split: sum.splits)

lemma after_answer_success:
  "toasts (after_answer env s a v) = toasts v @ [ToastSuccess m] \<Longrightarrow>
   products (after_answer env s a v) = map doc_json (docs (db s))"
  by (auto simp: after_answer_def Let_def split: sum.splits if_splits)

lemma updateProductView_fields:
  "selectedProduct (ui (updateProductView env dl st)) = selectedProduct (ui st) \<and>
   editData (ui (updateProductView env dl st)) = editData (ui st) \<and>
   (isEditing (ui (updateProductView env dl st)) \<longrightarrow> isEditing (ui st))"
  by (simp add: updateProductView_def Let_def split: option.splits sum.splits prod.splits)

lemma keys_opt_field: "set (keys (opt_field k vo)) \<subseteq> {k}"
  by (cases vo) (simp_all add: opt_field_def keys_def)

lemma keys_snapshot: "set (keys (snapshot p)) \<subseteq> edit_keys"
  using keys_opt_field by (fastforce simp: snapshot_def keys_def edit_keys_def)

lemma view_inv_init: "view_inv view_init"
  by (simp add: view_inv_def view_init_def keys_def edit_keys_def)

lemma view_step_inv:
  assumes "view_inv (ui st)" "view_step env dl st e = Some st'"
  shows "view_inv (ui st')"
proof (cases e)
  case (ToggleRow n)
  with assms show ?thesis
    by (auto simp: view_inv_def toggleStock_def after_answer_fields Let_def split: if_splits prod.splits)
next
  case (DeleteRow n)
  with assms show ?thesis
    by (auto simp: view_inv_def deleteProductView_def after_answer_fields Let_def split: if_splits prod.splits)
next
  case (EditRow n)
  with assms show ?thesis using keys_snapshot [of "products (ui st) ! n"]
    by (auto simp: view_inv_def editRow_def split: if_splits)
next
  case (EditField k x)
  with assms show ?thesis by (auto simp: view_inv_def edit_keys_def split: if_splits)
next
  case CancelEdit
  with assms show ?thesis by (auto simp: view_inv_def split: if_splits)
next
  case SaveEdit
  with assms show ?thesis using updateProductView_fields [of env dl st]
    by (auto simp: view_inv_def split: if_splits)
next
  case Fetch
  with assms show ?thesis by (auto simp: view_inv_def)
qed

lemma reach_view_inv: "reach env st \<Longrightarrow> view_inv (ui st)"
  by (induction rule: reach.induct) (auto simp: view_inv_init intro: view_step_inv)

lemma srv_updateProductView:
  "selectedProduct (ui st) = Some p \<Longrightarrow>
   srv (updateProductView env dl st) = fst (round_trip env dl Update (edit_req p (editData (ui st))) (srv st))"
  by (simp add: updateProductView_def Let_def split: sum.splits prod.splits)

lemma edit_req_image_frame:
  assumes "set (keys ed) \<subseteq> edit_keys"
  shows "map_option (\<lambda>d. jget d ''image'') \<circ> store_map (db (fst (handle env Update (edit_req p ed) s))) =
         map_option (\<lambda>d. jget d ''image'') \<circ> store_map (db s)"
proof -
  have nk: "''productData'' \<notin> set (keys ed)" "''image'' \<notin> set (keys ed)"
    using assms by (auto simp: edit_keys_def)
  then have "jget ed ''productData'' = None" by (simp add: jget_def keys_def map_of_eq_None_iff)
  then have "update_data env (edit_req p ed) = Inr (JObj ed)" by (simp add: update_data_def edit_req_def)
  with nk have h: "\<forall>u. update_data env (edit_req p ed) = Inr (JObj u) \<longrightarrow> ''image'' \<notin> set (keys u)"
    by simp
  show ?thesis
    using updateProduct_image_frame [of env "edit_req p ed" s, OF prod.collapse [symmetric] _ h]
    by (simp add: edit_req_def)
qed

lemma reach_loaded: "reach sample_env sample_loaded"
proof -
  have "reach sample_env \<lparr>srv = sample_server, ui = view_init\<rparr>" by (rule reach.init)
  moreover have "view_step sample_env Delivered \<lparr>srv = sample_server, ui = view_init\<rparr> Fetch = Some sample_loaded"
    by (simp add: sample_loaded_def)
  ultimately show ?thesis by (rule reach.step)
qed

lemma reach_editing: "reach sample_env sample_editing"
proof -
  have "view_step sample_env Delivered sample_loaded (EditRow 0) = Some sample_editing"
    by (simp add: sample_editing_def sample_loaded_def sample_server_def)
  with reach_loaded show ?thesis by (rule reach.step)
qed

section \<open>Properties of the view\<close>

text \<open>
  C10. In every reachable state of the view, an open edit modal has a selected
  product: the \<open>null\<close> branch of \<open>updateProduct\<close> (reading \<open>_id\<close> of
  \<open>null\<close>) never runs.
\<close>

theorem reach_modal_has_product:
  assumes "reach env st" "isEditing (ui st)"
  shows "selectedProduct (ui st) \<noteq> None"
  using reach_view_inv [OF assms(1)] assms(2) by (simp add: view_inv_def)

theorem reach_modal_has_product_witness:
  "reach sample_env sample_editing \<and> isEditing (ui sample_editing) \<and> selectedProduct (ui sample_editing) \<noteq> None"
proof -
  have e: "isEditing (ui sample_editing)" by (simp add: sample_editing_def editRow_def)
  show ?thesis using reach_modal_has_product [OF reach_editing e] reach_editing e by simp
qed

text \<open>
  C11. After any step whose delivered answer the view acknowledges with a
  success toast, the table shows exactly the server's collection, in order.
\<close>

theorem view_sync_after_success:
  assumes "view_step env Delivered st e = Some st'" "toasts (ui st') = toasts (ui st) @ [ToastSuccess m]"
  shows "products (ui st') = map doc_json (docs (db (srv st')))"
proof (cases e)
  case (ToggleRow n)
  with assms show ?thesis
    by (auto simp: toggleStock_def round_trip_delivered Let_def intro: after_answer_success split: if_splits)
next
  case (DeleteRow n)
  with assms show ?thesis
    by (auto simp: deleteProductView_def round_trip_delivered Let_def intro: after_answer_success split: if_splits)
next
  case SaveEdit
  with assms show ?thesis
    by (auto simp: updateProductView_def round_trip_delivered Let_def split: if_splits option.splits)
qed (use assms in \<open>auto simp: editRow_def split: if_splits\<close>)

theorem view_sync_after_success_witness:
  "view_step sample_env Delivered sample_loaded (ToggleRow 0) =
     Some (the (view_step sample_env Delivered sample_loaded (ToggleRow 0))) \<and>
   toasts (ui (the (view_step sample_env Delivered sample_loaded (ToggleRow 0)))) =
     toasts (ui sample_loaded) @ [ToastSuccess ''Stock Updated''] \<and>
   products (ui (the (view_step sample_env Delivered sample_loaded (ToggleRow 0)))) =
     map doc_json (docs (db (srv (the (view_step sample_env Delivered sample_loaded (ToggleRow 0))))))"
proof -
  have h1: "view_step sample_env Delivered sample_loaded (ToggleRow 0) =
     Some (the (view_step sample_env Delivered sample_loaded (ToggleRow 0)))"
    by (simp add: sample_loaded_def sample_server_def Let_def)
  have h2: "toasts (ui (the (view_step sample_env Delivered sample_loaded (ToggleRow 0)))) =
     toasts (ui sample_loaded) @ [ToastSuccess ''Stock Updated'']"
    by (simp add: sample_loaded_def sample_defs eval_defs toggleStock_def round_trip_def stock_req_def
        opt_field_def after_answer_def resp_success_def resp_message_def resp_fields_def
        doc_json_def view_init_def)
  show ?thesis using view_sync_after_success [OF h1 h2] h1 h2 by simp
qed

text \<open>
  C12. Saving the edit modal never changes any product's image list, whatever
  the network does: the view sends only the four snapshot fields, without
  files, so the controller keeps the images.
\<close>

theorem save_edit_keeps_images:
  assumes "reach env st" "view_step env dl st SaveEdit = Some st'"
  shows "map_option (\<lambda>d. jget d ''image'') \<circ> store_map (db (srv st')) =
         map_option (\<lambda>d. jget d ''image'') \<circ> store_map (db (srv st))"
proof -
  have inv: "view_inv (ui st)" using assms(1) by (rule reach_view_inv)
  from assms(2) have ed: "isEditing (ui st)" and st': "st' = updateProductView env dl st"
    by (auto split: if_splits)
  from inv ed obtain p where p: "selectedProduct (ui st) = Some p" by (auto simp: view_inv_def)
  from inv have k: "set (keys (editData (ui st))) \<subseteq> edit_keys" by (simp add: view_inv_def)
  have "srv st' = fst (round_trip env dl Update (edit_req p (editData (ui st))) (srv st))"
    using p st' by (simp add: srv_updateProductView)
  then show ?thesis
    using round_trip_state [of env dl Update "edit_req p (editData (ui st))" "srv st"]
      edit_req_image_frame [OF k, of env p "srv st"]
    by auto
qed

theorem save_edit_keeps_images_witness:
  "reach sample_env sample_editing \<and>
   view_step sample_env Delivered sample_editing SaveEdit =
     Some (updateProductView sample_env Delivered sample_editing) \<and>
   map_option (\<lambda>d. jget d ''image'') \<circ> store_map (db (srv (updateProductView sample_env Delivered sample_editing))) =
   map_option (\<lambda>d. jget d ''image'') \<circ> store_map (db (srv sample_editing))"
proof -
  have h: "view_step sample_env Delivered sample_editing SaveEdit =
     Some (updateProductView sample_env Delivered sample_editing)"
    by (simp add: sample_editing_def editRow_def)
  show ?thesis using save_edit_keeps_images [OF reach_editing h] reach_editing h by simp
qed

end
