(* ===== verification/Json.thy ===== *)
theory Json
  imports Prelude
begin

text \<open>
  \<open>JSON.stringify\<close>, the serialisation the entry form applies to its
  \<open>productData\<close> before posting it. Strings are quoted with the escapes
  ECMA-262 prescribes (quote, backslash, the five short control escapes,
  \<open>\u00XX\<close> for the other control characters); numbers are integers
  (see \<open>jval\<close>); arrays and objects are written in order with no spaces.
  Objects are written key by key as listed, which is the object itself for
  the objects the form builds (their keys are distinct).
\<close>

definition bslash :: char where
  "bslash = CHR 0x5C"

definition dquote :: char where
  "dquote = CHR 0x22"

definition esc :: "char \<Rightarrow> string" where
  "esc c = (let k = of_char c :: nat in
     if k = 34 then [bslash, dquote]
     else if k = 92 then [bslash, bslash]
     else if k = 8 then [bslash, CHR ''b'']
     else if k = 12 then [bslash, CHR ''f'']
     else if k = 10 then [bslash, CHR ''n'']
     else if k = 13 then [bslash, CHR ''r'']
     else if k = 9 then [bslash, CHR ''t'']
     else if k < 32 then [bslash, CHR ''u'', CHR ''0'', CHR ''0'', hex_digit (k div 16), hex_digit (k mod 16)]
     else [c])"

definition quote :: "string \<Rightarrow> string" where
  "quote s = dquote # concat (map esc s) @ [dquote]"

definition int_str :: "int \<Rightarrow> string" where
  "int_str n = (if n < 0 then CHR ''-'' # nat_str (nat (- n)) else nat_str (nat n))"

fun stringify :: "jval \<Rightarrow> string" where
  "stringify JNull = ''null''"
| "stringify (JBool b) = (if b then ''true'' else ''false'')"
| "stringify (JNum n) = int_str n"
| "stringify (JStr s) = quote s"
| "stringify (JArr vs) = CHR ''['' # js_join (CHR '','') (map stringify vs) @ '']''"
| "stringify (JObj fs) =
     CHR ''{'' # js_join (CHR '','') (map (\<lambda>p. quote (fst p) @ CHR '':'' # stringify (snd p)) fs) @ ''}''"

lemma esc_plain: "of_char c \<ge> (32::nat) \<Longrightarrow> of_char c \<noteq> (34::nat) \<Longrightarrow> of_char c \<noteq> (92::nat) \<Longrightarrow> esc c = [c]"
  by (simp add: esc_def Let_def)

lemma quote_nonempty: "quote s \<noteq> []"
  by (simp add: quote_def)

end
