(* ===== verification/AddProduct.thy ===== *)
theory AddProduct
  imports Controller Json
begin

text \<open>
  The entry page of \<open>src/client/src/pages/seller/AddProduct.jsx\<close>: its
  \<open>useState\<close> hooks as one record, and one definition per handler of the
  form and of the barcode lookup: the file slots (a sparse array), the field
  inputs, \<open>handleBarcodeLookup\<close> (lines 72--97) with every property read of
  the lookup's answer that can throw, and \<open>onSubmitHandler\<close> (lines 100--132),
  which serialises the form and posts it to \<open>Controller.addProduct\<close>.
  The camera and decoder part of the page (the effect of lines 26--61 and
  \<open>stopCamera\<close>) is in \<open>Scanner\<close>; its bookkeeping fields are declared here
  because it is one component state.
\<close>

section \<open>State\<close>

text \<open>Field values are JSON values: inputs give strings, the lookup may store
  whatever the external API returned, \<open>setQuantity(1)\<close> stores a number.
  \<open>stream\<close> is the React state of that name; \<open>eff_scanning\<close> and
  \<open>eff_stream\<close> are the values of \<open>isScanning\<close> and \<open>stream\<close> the mounted
  effect closed over; \<open>pending\<close> are the outstanding \<open>getUserMedia\<close> calls
  and \<open>loops\<close> the running decode callbacks, each with the \<open>stream\<close> value its
  closure saw; \<open>live\<close> are the camera streams the page opened and has not
  stopped; \<open>lookups\<close> are the barcode lookups in flight; \<open>mounted\<close> is false
  once the user has left the page.\<close>

record page =
  form_files :: "filepath option list"
  form_name :: jval
  form_description :: jval
  form_category :: jval
  form_price :: jval
  form_offerPrice :: jval
  form_quantity :: jval
  form_barcode :: jval
  isScanning :: bool
  showConfirm :: bool
  stream :: "nat option"
  eff_scanning :: bool
  eff_stream :: "nat option"
  pending :: "nat option list"
  loops :: "nat option list"
  live :: "nat list"
  next_stream :: nat
  lookups :: "string list"
  page_toasts :: "toast list"
  mounted :: bool

definition page_init :: page where
  "page_init =
     \<lparr>form_files = [], form_name = JStr [], form_description = JStr [], form_category = JStr [],
      form_price = JStr [], form_offerPrice = JStr [], form_quantity = JStr [], form_barcode = JStr [],
      isScanning = False, showConfirm = False, stream = None,
      eff_scanning = False, eff_stream = None, pending = [], loops = [], live = [], next_stream = 0,
      lookups = [], page_toasts = [], mounted = True\<rparr>"

definition toast_page :: "toast list \<Rightarrow> page \<Rightarrow> page" where
  "toast_page ts p = p\<lparr>page_toasts := page_toasts p @ ts\<rparr>"

section \<open>Form inputs\<close>

datatype field = FName | FDescription | FCategory | FPrice | FOfferPrice | FQuantity

fun set_field :: "field \<Rightarrow> jval \<Rightarrow> page \<Rightarrow> page" where
  "set_field FName v p = p\<lparr>form_name := v\<rparr>"
| "set_field FDescription v p = p\<lparr>form_description := v\<rparr>"
| "set_field FCategory v p = p\<lparr>form_category := v\<rparr>"
| "set_field FPrice v p = p\<lparr>form_price := v\<rparr>"
| "set_field FOfferPrice v p = p\<lparr>form_offerPrice := v\<rparr>"
| "set_field FQuantity v p = p\<lparr>form_quantity := v\<rparr>"

text \<open>A file input of slot \<open>index\<close> (lines 154--158): a copy of \<open>files\<close> with
  \<open>updatedFiles[index] = e.target.files[0]\<close>, which is \<open>undefined\<close> when the
  dialog is cancelled.\<close>

definition set_file :: "nat \<Rightarrow> filepath option \<Rightarrow> page \<Rightarrow> page" where
  "set_file i f p = p\<lparr>form_files := js_assign (form_files p) i f\<rparr>"

text \<open>What each of the four slots shows (lines 159--169): the chosen file when
  \<open>files[index]\<close> is set, the upload placeholder when it is \<open>undefined\<close>
  or beyond the array.\<close>

datatype preview = Preview filepath | UploadArea

definition slot_preview :: "page \<Rightarrow> nat \<Rightarrow> preview" where
  "slot_preview p i =
     (case (if i < length (form_files p) then form_files p ! i else None) of
        Some f \<Rightarrow> Preview f
      | None \<Rightarrow> UploadArea)"

definition previews :: "page \<Rightarrow> preview list" where
  "previews p = map (slot_preview p) [0..<4]"

text \<open>The browser's check of the \<open>required\<close> inputs before the submit event.\<close>

fun filled :: "jval \<Rightarrow> bool" where
  "filled (JStr s) = (s \<noteq> [])"
| "filled JNull = False"
| "filled (JArr []) = False"
| "filled _ = True"

definition form_valid :: "page \<Rightarrow> bool" where
  "form_valid p = (filled (form_name p) \<and> filled (form_price p) \<and> filled (form_offerPrice p) \<and>
                   filled (form_quantity p))"

section \<open>Barcode lookup\<close>

text \<open>Property reads of the lookup's answer: on \<open>undefined\<close> or \<open>null\<close> they
  throw; a primitive has none of the properties read here.\<close>

fun js_prop :: "jval option \<Rightarrow> string \<Rightarrow> string + jval option" where
  "js_prop None k = Inl (''Cannot read properties of undefined (reading '' @ k @ '')'')"
| "js_prop (Some JNull) k = Inl (''Cannot read properties of null (reading '' @ k @ '')'')"
| "js_prop (Some (JObj fs)) k = Inr (jget (jmerge [] fs) k)"
| "js_prop (Some _) k = Inr None"

text \<open>\<open>x || d\<close>.\<close>

definition or_else :: "jval option \<Rightarrow> jval \<Rightarrow> jval" where
  "or_else v d = (if truthy v then the v else d)"

text \<open>\<open>tags?.[0]\<close>: \<open>undefined\<close> on \<open>undefined\<close> and \<open>null\<close>, an element of an
  array, a character of a string, key \<open>"0"\<close> of an object.\<close>

fun first_elem :: "jval option \<Rightarrow> jval option" where
  "first_elem None = None"
| "first_elem (Some JNull) = None"
| "first_elem (Some (JArr vs)) = (case vs of [] \<Rightarrow> None | v # _ \<Rightarrow> Some v)"
| "first_elem (Some (JStr s)) = (case s of [] \<Rightarrow> None | c # _ \<Rightarrow> Some (JStr [c]))"
| "first_elem (Some (JObj fs)) = jget (jmerge [] fs) ''0''"
| "first_elem (Some _) = None"

text \<open>\<open>e?.replace("en:", "")\<close>: only a string has \<open>replace\<close>.\<close>

fun replace_en :: "jval option \<Rightarrow> string + jval option" where
  "replace_en None = Inr None"
| "replace_en (Some JNull) = Inr None"
| "replace_en (Some (JStr s)) = Inr (Some (JStr (replace_first ''en:'' [] s)))"
| "replace_en (Some _) = Inl ''replace is not a function''"

text \<open>The answer of the fetch: \<open>Inl\<close> when \<open>fetch\<close> or \<open>res.json()\<close> rejects.
  Each \<open>set\<close> call runs before the next read, so a read that throws keeps the
  fields set before it; the \<open>catch\<close> then shows its own error.\<close>

definition lookup_failed :: "page \<Rightarrow> page" where
  "lookup_failed p = toast_page [ToastDismiss, ToastError ''Error fetching product details''] p"

definition handleBarcodeLookup_done :: "string + jval \<Rightarrow> page \<Rightarrow> page" where
  "handleBarcodeLookup_done r p =
     (case r of
        Inl _ \<Rightarrow> lookup_failed p
      | Inr data \<Rightarrow>
          (let p0 = toast_page [ToastDismiss] p in
           case js_prop (Some data) ''status'' of
             Inl _ \<Rightarrow> lookup_failed p0
           | Inr st \<Rightarrow>
               if st = Some (JNum 1) then
                 (case js_prop (Some data) ''product'' of
                    Inl _ \<Rightarrow> lookup_failed p0
                  | Inr product \<Rightarrow>
                      (case js_prop product ''product_name'' of
                         Inl _ \<Rightarrow> lookup_failed p0
                       | Inr nm \<Rightarrow>
                           (let p1 = p0\<lparr>form_name := or_else nm (JStr [])\<rparr> in
                            case js_prop product ''generic_name'' of
                              Inl _ \<Rightarrow> lookup_failed p1
                            | Inr gn \<Rightarrow>
                                (let p2 = p1\<lparr>form_description := or_else gn (JStr [])\<rparr> in
                                 case js_prop product ''categories_tags'' of
                                   Inl _ \<Rightarrow> lookup_failed p2
                                 | Inr tags \<Rightarrow>
                                     (case replace_en (first_elem tags) of
                                        Inl _ \<Rightarrow> lookup_failed p2
                                      | Inr c \<Rightarrow>
                                          p2\<lparr>form_category := or_else c (JStr []), form_price := JStr [],
                                             form_offerPrice := JStr [], form_quantity := JNum 1,
                                             showConfirm := True\<rparr>)))))
               else toast_page [ToastError ''No product info found for this barcode''] p0))"

section \<open>Submitting the form\<close>

text \<open>The payload of lines 103--115: the fields as one JSON object, the
  description split at newlines (\<open>split\<close> of a non-string throws), and one
  file part per slot that holds a file (\<open>forEach\<close> skips holes, and an
  \<open>undefined\<close> slot is a text part, not a file).\<close>

definition productData :: "page \<Rightarrow> string + jval" where
  "productData p =
     (case form_description p of
        JStr d \<Rightarrow> Inr (JObj [(''name'', form_name p), (''description'', JArr (map JStr (js_split (CHR 0x0A) d))),
                          (''category'', form_category p), (''price'', form_price p),
                          (''offerPrice'', form_offerPrice p), (''quantity'', form_quantity p),
                          (''barcode'', form_barcode p)])
      | _ \<Rightarrow> Inl ''description.split is not a function'')"

definition attached :: "page \<Rightarrow> filepath list" where
  "attached p = concat (map (\<lambda>f. case f of None \<Rightarrow> [] | Some x \<Rightarrow> [x]) (form_files p))"

definition submit_req :: "jval \<Rightarrow> page \<Rightarrow> request" where
  "submit_req pd p = \<lparr>body = [(''productData'', JStr (stringify pd))], params = [], files = Some (attached p)\<rparr>"

text \<open>The reset after a success (lines 119--127).\<close>

definition reset_form :: "page \<Rightarrow> page" where
  "reset_form p = p\<lparr>form_name := JStr [], form_description := JStr [], form_category := JStr [],
                    form_price := JStr [], form_offerPrice := JStr [], form_quantity := JStr [],
                    form_files := [], form_barcode := JStr []\<rparr>"

text \<open>\<open>onSubmitHandler\<close> with the server: the answer is \<open>Inl\<close> for a network
  error. \<open>data.success\<close> and \<open>data.message\<close> are read from the answer.\<close>

definition answer_success :: "jval \<Rightarrow> bool" where
  "answer_success r = (case r of JObj fs \<Rightarrow> truthy (jget fs ''success'') | _ \<Rightarrow> False)"

definition answer_message :: "jval \<Rightarrow> string" where
  "answer_message r = (case r of JObj fs \<Rightarrow> (case jget fs ''message'' of Some (JStr m) \<Rightarrow> m | _ \<Rightarrow> []) | _ \<Rightarrow> [])"

definition submit_done :: "string + jval \<Rightarrow> page \<Rightarrow> page" where
  "submit_done a p =
     (case a of
        Inl m \<Rightarrow> toast_page [ToastError m] p
      | Inr r \<Rightarrow> if answer_success r then reset_form (toast_page [ToastSuccess (answer_message r)] p)
                 else toast_page [ToastError (answer_message r)] p)"

section \<open>Samples\<close>

text \<open>An answer of the product database for a known barcode, and a filled form.\<close>

definition sample_found :: jval where
  "sample_found =
     JObj [(''status'', JNum 1),
           (''product'', JObj [(''product_name'', JStr ''Oat Drink''), (''generic_name'', JStr ''Oat based drink''),
                              (''categories_tags'', JArr [JStr ''en:beverages'', JStr ''en:plant-based''])])]"

definition sample_filled :: page where
  "sample_filled = page_init\<lparr>form_files := [Some ''f1'', None], form_name := JStr ''Milk'',
     form_description := JStr (''Fresh'' @ [CHR 0x0A] @ ''1 litre''), form_price := JStr ''50'',
     form_offerPrice := JStr ''45'', form_quantity := JStr ''10''\<rparr>"

section \<open>Lemmas\<close>

lemma toast_page_append [simp]: "toast_page b (toast_page a p) = toast_page (a @ b) p"
  by (simp add: toast_page_def)

lemma or_else_str [simp]: "or_else (Some (JStr s)) (JStr []) = JStr s"
  by (simp add: or_else_def)

lemma js_prop_obj [simp]: "js_prop (Some (JObj fs)) k = Inr (jget (jmerge [] fs) k)"
  by simp

section \<open>Properties of the form\<close>

text \<open>
  C13. A barcode lookup whose answer does not have \<open>status === 1\<close> changes no
  field of the form and does not open the confirm dialog: it dismisses the
  loading toast and shows "No product info found for this barcode".
\<close>

theorem lookup_not_found_keeps_form:
  assumes "js_prop (Some data) ''status'' = Inr st" "st \<noteq> Some (JNum 1)"
  shows "handleBarcodeLookup_done (Inr data) p =
           toast_page [ToastDismiss, ToastError ''No product info found for this barcode''] p"
  using assms by (simp add: handleBarcodeLookup_done_def Let_def)

theorem lookup_not_found_keeps_form_witness:
  "js_prop (Some (JObj [(''status'', JNum 0)])) ''status'' = Inr (Some (JNum 0)) \<and>
   Some (JNum 0) \<noteq> Some (JNum 1) \<and>
   handleBarcodeLookup_done (Inr (JObj [(''status'', JNum 0)])) sample_filled =
     toast_page [ToastDismiss, ToastError ''No product info found for this barcode''] sample_filled"
proof -
  have h1: "js_prop (Some (JObj [(''status'', JNum 0)])) ''status'' = Inr (Some (JNum 0))"
    by (simp add: jmerge_def)
  have h2: "Some (JNum 0) \<noteq> Some (JNum 1)" by simp
  show ?thesis using lookup_not_found_keeps_form [OF h1 h2] h1 h2 by simp
qed

text \<open>
  C14. A lookup answer with \<open>status === 1\<close> and string fields pre-fills the
  form: name and description from the product, the category from the first
  tag with its first \<open>"en:"\<close> removed, the prices cleared, quantity 1, and the
  confirm dialog opened.
\<close>

theorem lookup_found_prefills:
  assumes "jget (jmerge [] fs) ''status'' = Some (JNum 1)" "jget (jmerge [] fs) ''product'' = Some (JObj pf)"
    "jget (jmerge [] pf) ''product_name'' = Some (JStr n)" "jget (jmerge [] pf) ''generic_name'' = Some (JStr g)"
    "jget (jmerge [] pf) ''categories_tags'' = Some (JArr (JStr t # ts))"
  shows "handleBarcodeLookup_done (Inr (JObj fs)) p =
           (toast_page [ToastDismiss] p)\<lparr>form_name := JStr n, form_description := JStr g,
              form_category := JStr (replace_first ''en:'' [] t), form_price := JStr [],
              form_offerPrice := JStr [], form_quantity := JNum 1, showConfirm := True\<rparr>"
  using assms by (simp add: handleBarcodeLookup_done_def Let_def)

theorem lookup_found_prefills_witness:
  "handleBarcodeLookup_done (Inr sample_found) page_init =
     (toast_page [ToastDismiss] page_init)\<lparr>form_name := JStr ''Oat Drink'', form_description := JStr ''Oat based drink'',
        form_category := JStr ''beverages'', form_price := JStr [], form_offerPrice := JStr [],
        form_quantity := JNum 1, showConfirm := True\<rparr>"
proof -
  obtain fs where fs: "sample_found = JObj fs" and
    h1: "jget (jmerge [] fs) ''status'' = Some (JNum 1)" and
    h2: "jget (jmerge [] fs) ''product'' = Some (JObj [(''product_name'', JStr ''Oat Drink''),
           (''generic_name'', JStr ''Oat based drink''),
           (''categories_tags'', JArr [JStr ''en:beverages'', JStr ''en:plant-based''])])"
    by (simp add: sample_found_def jmerge_def)
  have h3: "jget (jmerge [] [(''product_name'', JStr ''Oat Drink''), (''generic_name'', JStr ''Oat based drink''),
           (''categories_tags'', JArr [JStr ''en:beverages'', JStr ''en:plant-based''])]) ''product_name'' =
           Some (JStr ''Oat Drink'')"
   and h4: "jget (jmerge [] [(''product_name'', JStr ''Oat Drink''), (''generic_name'', JStr ''Oat based drink''),
           (''categories_tags'', JArr [JStr ''en:beverages'', JStr ''en:plant-based''])]) ''generic_name'' =
           Some (JStr ''Oat based drink'')"
   and h5: "jget (jmerge [] [(''product_name'', JStr ''Oat Drink''), (''generic_name'', JStr ''Oat based drink''),
           (''categories_tags'', JArr [JStr ''en:beverages'', JStr ''en:plant-based''])]) ''categories_tags'' =
           Some (JArr [JStr ''en:beverages'', JStr ''en:plant-based''])"
    by (simp_all add: jmerge_def)
  have r: "replace_first ''en:'' [] ''en:beverages'' = ''beverages''"
    using replace_first_prefix [of "''en:''" "[]" "''beverages''"] by simp
  show ?thesis using lookup_found_prefills [OF h1 h2 h3 h4 h5] fs r by simp
qed

text \<open>
  C15. The description the form posts is the typed text split at newlines:
  joined back with newlines it is the text again, and no piece holds a
  newline.
\<close>

theorem productData_description_roundtrip:
  assumes "form_description p = JStr d"
  shows "\<exists>fs ws. productData p = Inr (JObj fs) \<and> jget fs ''description'' = Some (JArr (map JStr ws)) \<and>
           js_join (CHR 0x0A) ws = d \<and> (\<forall>w\<in>set ws. CHR 0x0A \<notin> set w)"
proof -
  have "js_join (CHR 0x0A) (js_split (CHR 0x0A) d) = d" by (rule js_join_split)
  moreover have "\<forall>w\<in>set (js_split (CHR 0x0A) d). CHR 0x0A \<notin> set w"
    using js_split_no_sep by blast
  ultimately show ?thesis using assms by (simp add: productData_def) blast
qed

theorem productData_description_roundtrip_witness:
  "form_description sample_filled = JStr (''Fresh'' @ [CHR 0x0A] @ ''1 litre'') \<and>
   (\<exists>fs ws. productData sample_filled = Inr (JObj fs) \<and> jget fs ''description'' = Some (JArr (map JStr ws)) \<and>
      js_join (CHR 0x0A) ws = ''Fresh'' @ [CHR 0x0A] @ ''1 litre'' \<and> (\<forall>w\<in>set ws. CHR 0x0A \<notin> set w))"
proof -
  have h: "form_description sample_filled = JStr (''Fresh'' @ [CHR 0x0A] @ ''1 litre'')"
    by (simp add: sample_filled_def)
  show ?thesis using productData_description_roundtrip [OF h] h by blast
qed

end
