(* ===== verification/ProductTable.thy ===== *)
theory ProductTable
  imports ProductListView AddProduct
begin

text \<open>
  The product table that \<open>src/client/src/pages/seller/ProductList.jsx\<close>
  renders (lines 71--163): one row per product of the app context, keyed by
  \<open>product._id\<close>, showing \<open>product.image[0]\<close>, the name, the category, the
  currency and offer price, the stock switch and the quantity. Rendering is a
  function of the view: \<open>Inl\<close> is the error that makes React drop the page
  (a property read on \<open>null\<close> or \<open>undefined\<close>, or an object given as a
  child), \<open>Inr\<close> the rows. The theory shows what the table shows after a
  refetch, that the view's own actions never make it throw, and that a
  direct call of the update endpoint can, and what a lost answer leaves.
\<close>

section \<open>React children\<close>

text \<open>A JSX child \<open>{x}\<close>: strings and numbers are text, \<open>null\<close>,
  \<open>undefined\<close> and booleans render nothing, an array renders its elements,
  and a plain object throws.\<close>

fun react_child :: "jval \<Rightarrow> string + string"
and react_children :: "jval list \<Rightarrow> string + string" where
  "react_child (JStr s) = Inr s"
| "react_child (JNum n) = Inr (int_str n)"
| "react_child (JBool b) = Inr []"
| "react_child JNull = Inr []"
| "react_child (JArr vs) = react_children vs"
| "react_child (JObj fs) = Inl ''Objects are not valid as a React child''"
| "react_children [] = Inr []"
| "react_children (v # vs) =
     (case react_child v of
        Inl e \<Rightarrow> Inl e
      | Inr t \<Rightarrow> (case react_children vs of Inl e \<Rightarrow> Inl e | Inr u \<Rightarrow> Inr (t @ u)))"

definition child :: "jval option \<Rightarrow> string + string" where
  "child v = (case v of None \<Rightarrow> Inr [] | Some x \<Rightarrow> react_child x)"

text \<open>The children of one cell, in order: the text of the cell.\<close>

fun cell :: "jval option list \<Rightarrow> string + string" where
  "cell [] = Inr []"
| "cell (v # vs) =
     (case child v of
        Inl e \<Rightarrow> Inl e
      | Inr t \<Rightarrow> (case cell vs of Inl e \<Rightarrow> Inl e | Inr u \<Rightarrow> Inr (t @ u)))"

fun cells :: "jval option list list \<Rightarrow> string + string list" where
  "cells [] = Inr []"
| "cells (c # cs) =
     (case cell c of
        Inl e \<Rightarrow> Inl e
      | Inr t \<Rightarrow> (case cells cs of Inl e \<Rightarrow> Inl e | Inr ts \<Rightarrow> Inr (t # ts)))"

section \<open>Rows\<close>

text \<open>\<open>a[0]\<close> without optional chaining: it throws on \<open>undefined\<close> and
  \<open>null\<close>, and is \<open>?.[0]\<close> otherwise.\<close>

definition index0 :: "jval option \<Rightarrow> string + jval option" where
  "index0 v =
     (case v of
        None \<Rightarrow> Inl ''Cannot read properties of undefined (reading 0)''
      | Some JNull \<Rightarrow> Inl ''Cannot read properties of null (reading 0)''
      | _ \<Rightarrow> Inr (first_elem v))"

text \<open>A property of a product that is not \<open>null\<close> or \<open>undefined\<close>.\<close>

definition jprop :: "jval \<Rightarrow> string \<Rightarrow> jval option" where
  "jprop p k = (case p of JObj fs \<Rightarrow> jget (jmerge [] fs) k | _ \<Rightarrow> None)"

record row =
  row_key :: "jval option"
  row_src :: "jval option"
  row_cells :: "string list"
  row_checked :: bool

text \<open>One \<open>tr\<close> (lines 89--156): the key, the image source, the text
  cells (name, category, currency and offer price, quantity) and the
  switch's \<open>checked\<close>. The edit and delete buttons and the switch's
  \<open>onChange\<close> are the events of \<open>view_step\<close>.\<close>

definition render_row :: "string \<Rightarrow> jval \<Rightarrow> string + row" where
  "render_row c p =
     (case js_prop (Some p) ''_id'' of
        Inl e \<Rightarrow> Inl e
      | Inr k \<Rightarrow>
          (case index0 (jprop p ''image'') of
             Inl e \<Rightarrow> Inl e
           | Inr src \<Rightarrow>
               (case cells [[jprop p ''name''], [jprop p ''category''],
                            [Some (JStr c), jprop p ''offerPrice''], [jprop p ''quantity'']] of
                  Inl e \<Rightarrow> Inl e
                | Inr ts \<Rightarrow> Inr \<lparr>row_key = k, row_src = src, row_cells = ts,
                                  row_checked = truthy (jprop p ''inStock'')\<rparr>)))"

text \<open>\<open>products.map(...)\<close>: the first row that throws ends the render.\<close>

fun render_rows :: "string \<Rightarrow> jval list \<Rightarrow> string + row list" where
  "render_rows c [] = Inr []"
| "render_rows c (p # ps) =
     (case render_row c p of
        Inl e \<Rightarrow> Inl e
      | Inr r \<Rightarrow> (case render_rows c ps of Inl e \<Rightarrow> Inl e | Inr rs \<Rightarrow> Inr (r # rs)))"

definition render_table :: "string \<Rightarrow> view \<Rightarrow> string + row list" where
  "render_table c v = render_rows c (products v)"

section \<open>Documents the table can show\<close>

text \<open>The fields the table reads, and what each needs: the image list must
  not be \<open>null\<close> or missing, the text fields must not be objects.\<close>

definition render_keys :: "string list" where
  "render_keys = [''image'', ''name'', ''category'', ''offerPrice'', ''quantity'']"

definition child_ok :: "jval option \<Rightarrow> bool" where
  "child_ok v = (case child v of Inr _ \<Rightarrow> True | Inl _ \<Rightarrow> False)"

definition field_ok :: "string \<Rightarrow> jval option \<Rightarrow> bool" where
  "field_ok k v = (if k = ''image'' then v \<noteq> None \<and> v \<noteq> Some JNull else child_ok v)"

definition doc_renders :: "fields \<Rightarrow> bool" where
  "doc_renders d = list_all (\<lambda>k. field_ok k (jget d k)) render_keys"

definition store_renders :: "store \<Rightarrow> bool" where
  "store_renders st = list_all (\<lambda>p. doc_renders (snd p)) (docs st)"

text \<open>The row a stored document gives.\<close>

definition doc_row :: "string \<Rightarrow> oid \<times> fields \<Rightarrow> row" where
  "doc_row c p =
     \<lparr>row_key = Some (JStr (fst p)), row_src = first_elem (jget (snd p) ''image''),
      row_cells = map (\<lambda>k. projr (child (jget (snd p) k))) [''name'', ''category''] @
                  [c @ projr (child (jget (snd p) ''offerPrice'')), projr (child (jget (snd p) ''quantity''))],
      row_checked = truthy (jget (snd p) ''inStock'')\<rparr>"

text \<open>An update whose rendered fields the table can show.\<close>

definition upd_ok :: "fields \<Rightarrow> bool" where
  "upd_ok u = list_all (\<lambda>(k, v). k \<in> set render_keys \<longrightarrow> field_ok k (Some v)) u"

text \<open>A product of the app context as the list endpoint sends it.\<close>

definition prod_ok :: "jval \<Rightarrow> bool" where
  "prod_ok p =
     (case p of
        JObj ((k, JStr i) # d) \<Rightarrow> k = ''_id'' \<and> distinct (keys d) \<and> ''_id'' \<notin> set (keys d) \<and> doc_renders d
      | _ \<Rightarrow> False)"

text \<open>What the list view keeps: a consistent store the table can show, a
  product list it can show, and edit data of the four edit fields holding
  values it can show.\<close>

definition table_inv :: "sys \<Rightarrow> bool" where
  "table_inv st =
     (store_inv (db (srv st)) \<and> store_renders (db (srv st)) \<and> list_all prod_ok (products (ui st)) \<and>
      list_all (\<lambda>(k, v). child_ok (Some v)) (editData (ui st)) \<and> set (keys (editData (ui st))) \<subseteq> edit_keys)"

text \<open>A run of the list view: user events, each with its network outcome.\<close>

fun view_run :: "env \<Rightarrow> sys \<Rightarrow> (delivery \<times> ui_event) list \<Rightarrow> sys option" where
  "view_run env st [] = Some st"
| "view_run env st ((dl, e) # evs) =
     (case view_step env dl st e of None \<Rightarrow> None | Some st' \<Rightarrow> view_run env st' evs)"

text \<open>A direct call of the update endpoint whose JSON body, without
  \<open>productData\<close>, sets \<open>image\<close> to \<open>null\<close>.\<close>

definition null_image_req :: "oid \<Rightarrow> request" where
  "null_image_req i = \<lparr>body = [(''image'', JNull)], params = [(''id'', i)], files = None\<rparr>"

section \<open>Lemmas\<close>

lemma jprop_doc_json:
  assumes "distinct (keys d)" "''_id'' \<notin> set (keys d)"
  shows "jprop (doc_json (i, d)) k = (if k = ''_id'' then Some (JStr i) else jget d k)"
proof -
  have "distinct (keys ((''_id'', JStr i) # d))" using assms by (simp add: keys_def)
  then show ?thesis by (simp add: jprop_def doc_json_def jmerge_Nil_distinct)
qed

lemma render_row_doc:
  assumes "distinct (keys d)" "''_id'' \<notin> set (keys d)" "doc_renders d"
  shows "render_row c (doc_json (i, d)) = Inr (doc_row c (i, d))"
proof -
  have j: "jprop (doc_json (i, d)) k = (if k = ''_id'' then Some (JStr i) else jget d k)" for k
    using assms(1,2) by (rule jprop_doc_json)
  have k: "js_prop (Some (doc_json (i, d))) ''_id'' = Inr (Some (JStr i))"
    using j [of "''_id''"] by (simp add: doc_json_def jprop_def)
  from assms(3) have f: "field_ok k (jget d k)" if "k \<in> set render_keys" for k
    using that by (simp add: doc_renders_def list_all_iff)
  then have i: "index0 (jget d ''image'') = Inr (first_elem (jget d ''image''))"
    by (auto simp: index0_def field_ok_def render_keys_def split: option.splits jval.splits)
  have c: "\<exists>t. child (jget d k) = Inr t" if "k \<in> {''name'', ''category'', ''offerPrice'', ''quantity''}" for k
    using f [of k] that by (auto simp: render_keys_def field_ok_def child_ok_def split: sum.splits)
  obtain tn tc to tq where "child (jget d ''name'') = Inr tn" "child (jget d ''category'') = Inr tc"
    "child (jget d ''offerPrice'') = Inr to" "child (jget d ''quantity'') = Inr tq"
    using c [of "''name''"] c [of "''category''"] c [of "''offerPrice''"] c [of "''quantity''"] by auto
  with k i show ?thesis
    by (simp add: render_row_def j doc_row_def child_def [of "Some (JStr c)"])
qed

lemma doc_wf_id: "doc_wf n (i, d) \<Longrightarrow> distinct (keys d) \<and> ''_id'' \<notin> set (keys d)"
  by (auto simp: doc_wf_def product_paths_def)

lemma render_rows_docs:
  assumes "list_all (doc_wf n) ds" "list_all (\<lambda>p. doc_renders (snd p)) ds"
  shows "render_rows c (map doc_json ds) = Inr (map (doc_row c) ds)"
  using assms
proof (induction ds)
  case (Cons p ds)
  obtain i d where p: "p = (i, d)" by (cases p)
  with Cons.prems have "render_row c (doc_json (i, d)) = Inr (doc_row c (i, d))"
    using doc_wf_id [of n i d] by (intro render_row_doc) auto
  with Cons p show ?case by simp
qed simp


lemma prod_ok_doc_json:
  "prod_ok (doc_json (i, d)) = (distinct (keys d) \<and> ''_id'' \<notin> set (keys d) \<and> doc_renders d)"
  by (simp add: prod_ok_def doc_json_def)

lemma prod_ok_cases:
  assumes "prod_ok p"
  obtains i d where "p = doc_json (i, d)" "distinct (keys d)" "''_id'' \<notin> set (keys d)" "doc_renders d"
proof -
  from assms obtain k x d where p: "p = JObj ((k, x) # d)"
    by (auto simp: prod_ok_def split: jval.splits list.splits)
  with assms obtain i where "x = JStr i" by (cases x) (auto simp: prod_ok_def)
  with p assms show thesis using that by (auto simp: prod_ok_def doc_json_def)
qed

lemma render_rows_ok: "list_all prod_ok ps \<Longrightarrow> \<exists>rows. render_rows c ps = Inr rows"
proof (induction ps)
  case (Cons p ps)
  then obtain rows where r: "render_rows c ps = Inr rows" by auto
  from Cons.prems obtain i d where "p = doc_json (i, d)" "distinct (keys d)" "''_id'' \<notin> set (keys d)"
    "doc_renders d" by (auto elim: prod_ok_cases)
  then have "render_row c p = Inr (doc_row c (i, d))" by (simp add: render_row_doc)
  with r show ?case by simp
qed simp

lemma fetch_prod_ok:
  assumes "store_inv st" "store_renders st"
  shows "list_all prod_ok (map doc_json (docs st))"
  unfolding list_all_iff
proof
  fix p assume "p \<in> set (map doc_json (docs st))"
  then obtain i d where p: "p = doc_json (i, d)" "(i, d) \<in> set (docs st)" by auto
  with assms have "doc_wf (next_id st) (i, d)" "doc_renders d"
    by (auto simp: store_inv_def store_renders_def list_all_iff)
  with p show "prod_ok p" using doc_wf_id [of "next_id st" i d] by (simp add: prod_ok_doc_json)
qed

lemma doc_renders_merge:
  assumes "doc_renders d" "upd_ok u"
  shows "doc_renders (jmerge d (schema_filter u))"
  unfolding doc_renders_def list_all_iff
proof
  fix k assume k: "k \<in> set render_keys"
  show "field_ok k (jget (jmerge d (schema_filter u)) k)"
  proof (cases "map_of (rev (schema_filter u)) k")
    case None
    with assms(1) k show ?thesis by (simp add: jget_jmerge doc_renders_def list_all_iff)
  next
    case (Some v)
    then have "(k, v) \<in> set u" by (auto simp: schema_filter_def dest: map_of_SomeD)
    with assms(2) k Some show ?thesis by (auto simp: jget_jmerge upd_ok_def list_all_iff)
  qed
qed

lemma update_renders:
  assumes "store_renders st" "find_by_id_and_update rv valid idv (JObj u) st = Inr (r, st')" "upd_ok u"
  shows "store_renders st'"
proof (cases "st' = st")
  case True
  with assms(1) show ?thesis by simp
next
  case False
  with assms(2) obtain i d where
    d: "map_of (docs st) i = Some d" and
    st': "st' = st\<lparr>docs := replace_doc i (jmerge d (schema_filter u)) (docs st)\<rparr>"
    by (auto simp: find_by_id_and_update_def Let_def split: sum.splits option.splits if_splits)
  from d have "(i, d) \<in> set (docs st)" by (rule map_of_SomeD)
  with assms(1) have "doc_renders d" by (auto simp: store_renders_def list_all_iff)
  then have "doc_renders (jmerge d (schema_filter u))" using assms(3) by (rule doc_renders_merge)
  with assms(1) show ?thesis
    by (auto simp: st' store_renders_def list_all_iff dest!: set_replace_doc)
qed

lemma delete_renders:
  "store_renders st \<Longrightarrow> find_by_id_and_delete idv st = Inr (r, st') \<Longrightarrow> store_renders st'"
  by (auto simp: find_by_id_and_delete_def store_renders_def remove_doc_def list_all_iff
           split: sum.splits option.splits)

lemma upd_ok_stock: "upd_ok (stock_update req)"
  by (simp add: upd_ok_def stock_update_def render_keys_def split: option.split)

lemma changeStock_renders:
  assumes "store_renders (db s)"
  shows "store_renders (db (fst (changeStock env req s)))"
proof (cases "find_by_id_and_update False (valid_update env) (jget (body req) ''id'')
                (JObj (stock_update req)) (db s)")
  case (Inl e)
  then show ?thesis using assms by (simp add: changeStock_def)
next
  case (Inr r)
  obtain x st' where r: "r = (x, st')" by (cases r)
  have "store_renders st'" using update_renders [OF assms] Inr r upd_ok_stock by blast
  with Inr r show ?thesis by (simp add: changeStock_def)
qed

lemma deleteProduct_renders:
  assumes "store_renders (db s)"
  shows "store_renders (db (fst (deleteProduct env req s)))"
proof (cases "find_by_id_and_delete (param_id req) (db s)")
  case (Inl e)
  then show ?thesis using assms by (simp add: deleteProduct_def)
next
  case (Inr r)
  obtain x st' where r: "r = (x, st')" by (cases r)
  have "store_renders st'" using delete_renders [OF assms] Inr r by blast
  with Inr r assms show ?thesis by (simp add: deleteProduct_def)
qed

lemma updateProduct_renders:
  assumes "store_renders (db s)" "files req = None" "\<forall>u. update_data env req = Inr (JObj u) \<longrightarrow> upd_ok u"
  shows "store_renders (db (fst (updateProduct env req s)))"
proof -
  have u: "update_uploads env req s = (Inr [], s)" using assms(2) by (simp add: update_uploads_none)
  obtain s' r where h: "updateProduct env req s = (s', r)" by (cases "updateProduct env req s")
  from h have "store_renders (db s')"
  proof (cases rule: updateProduct_cases)
    case (missing pd urls s1 pd' st')
    with u have "s1 = s" by simp
    with missing(4) have "st' = db s" using update_none_unchanged by blast
    with missing assms(1) show ?thesis by simp
  next
    case (updated pd urls s1 pd' p st')
    with u have s1: "s1 = s" "pd' = pd" by auto
    from updated s1 obtain v where pd: "pd = JObj v" using update_Inr_obj by blast
    with updated assms(3) have "upd_ok v" by simp
    with updated s1 pd assms(1) show ?thesis using update_renders by auto
  qed (use u assms(1) in auto)
  with h show ?thesis by simp
qed

lemma round_trip_db:
  "P (db s) \<Longrightarrow> P (db (fst (handle env ep req s))) \<Longrightarrow> P (db (fst (round_trip env dl ep req s)))"
  using round_trip_state [of env dl ep req s] by auto

lemma after_answer_products:
  "products (after_answer env s a v) = products v \<or> products (after_answer env s a v) = map doc_json (docs (db s))"
  by (auto simp: after_answer_def Let_def split: sum.splits)

lemma table_inv_answer:
  assumes "table_inv st" "store_inv (db s')" "store_renders (db s')"
  shows "table_inv \<lparr>srv = s', ui = after_answer env s' a (ui st)\<rparr>"
proof -
  have "list_all prod_ok (products (after_answer env s' a (ui st)))"
    using after_answer_products [of env s' a "ui st"] fetch_prod_ok [OF assms(2,3)] assms(1)
    unfolding table_inv_def by metis
  moreover have "editData (after_answer env s' a (ui st)) = editData (ui st)"
    by (simp add: after_answer_fields)
  ultimately show ?thesis using assms by (simp add: table_inv_def)
qed

lemma opt_field_ok: "child_ok vo \<Longrightarrow> list_all (\<lambda>(k, v). child_ok (Some v)) (opt_field k vo)"
  by (cases vo) (simp_all add: opt_field_def)

lemma child_ok_snapshot:
  assumes "prod_ok p"
  shows "list_all (\<lambda>(k, v). child_ok (Some v)) (snapshot p)"
proof -
  from assms obtain i d where p: "p = doc_json (i, d)" "doc_renders d" by (auto elim: prod_ok_cases)
  have "list_all (\<lambda>(k, v). child_ok (Some v)) (opt_field k (jget (resp_fields p) k))"
    if "k \<in> {''name'', ''category'', ''offerPrice'', ''quantity''}" for k
  proof (rule opt_field_ok)
    from that have "jget (resp_fields p) k = jget d k" by (auto simp: p resp_fields_def doc_json_def)
    moreover from p(2) that have "field_ok k (jget d k)" by (auto simp: doc_renders_def render_keys_def)
    ultimately show "child_ok (jget (resp_fields p) k)" using that by (auto simp: field_ok_def)
  qed
  then show ?thesis by (simp add: snapshot_def)
qed

lemma upd_ok_edit:
  assumes "list_all (\<lambda>(k, v). child_ok (Some v)) ed" "set (keys ed) \<subseteq> edit_keys"
  shows "upd_ok ed"
proof -
  have "field_ok k (Some v)" if "(k, v) \<in> set ed" for k v
  proof -
    from that assms(2) have "k \<noteq> ''image''" by (force simp: keys_def edit_keys_def)
    with that assms(1) show ?thesis by (auto simp: field_ok_def list_all_iff)
  qed
  then show ?thesis by (auto simp: upd_ok_def list_all_iff)
qed

lemma edit_req_update_data:
  "set (keys ed) \<subseteq> edit_keys \<Longrightarrow> update_data env (edit_req p ed) = Inr (JObj ed)"
proof -
  assume "set (keys ed) \<subseteq> edit_keys"
  then have "''productData'' \<notin> set (keys ed)" by (auto simp: edit_keys_def)
  then have "jget ed ''productData'' = None" by (simp add: jget_def keys_def map_of_eq_None_iff)
  then show ?thesis by (simp add: update_data_def edit_req_def)
qed

lemma updateProductView_products:
  "products (ui (updateProductView env dl st)) = products (ui st) \<or>
   products (ui (updateProductView env dl st)) = map doc_json (docs (db (srv (updateProductView env dl st))))"
  by (simp add: updateProductView_def Let_def split: option.splits sum.splits prod.splits)

lemma table_inv_round_trip:
  assumes "table_inv st" "store_inv (db (fst (handle env ep req (srv st))))"
    "store_renders (db (fst (handle env ep req (srv st))))"
  shows "store_inv (db (fst (round_trip env dl ep req (srv st)))) \<and>
         store_renders (db (fst (round_trip env dl ep req (srv st))))"
  using assms round_trip_db [where P = store_inv] round_trip_db [where P = store_renders]
  by (simp add: table_inv_def)

lemma table_inv_row_action:
  assumes "table_inv st" "ep \<in> {Stock, Delete}"
  shows "table_inv \<lparr>srv = fst (round_trip env dl ep req (srv st)),
                     ui = after_answer env (fst (round_trip env dl ep req (srv st))) a (ui st)\<rparr>"
proof -
  have "store_inv (db (fst (handle env ep req (srv st)))) \<and> store_renders (db (fst (handle env ep req (srv st))))"
    using assms by (auto simp: table_inv_def changeStock_store_inv changeStock_renders
        deleteProduct_store_inv deleteProduct_renders)
  with assms(1) show ?thesis using table_inv_round_trip table_inv_answer by blast
qed

lemma table_inv_save:
  assumes "table_inv st"
  shows "table_inv (updateProductView env dl st)"
proof (cases "selectedProduct (ui st)")
  case None
  with assms show ?thesis by (simp add: updateProductView_def table_inv_def)
next
  case (Some p)
  let ?ed = "editData (ui st)"
  have k: "set (keys ?ed) \<subseteq> edit_keys" "list_all (\<lambda>(k, v). child_ok (Some v)) ?ed"
    using assms by (simp_all add: table_inv_def)
  have ed: "update_data env (edit_req p ?ed) = Inr (JObj ?ed)" "upd_ok ?ed" "files (edit_req p ?ed) = None"
    using edit_req_update_data [OF k(1)] upd_ok_edit [OF k(2,1)] by (simp_all add: edit_req_def)
  have "store_inv (db (fst (handle env Update (edit_req p ?ed) (srv st)))) \<and>
        store_renders (db (fst (handle env Update (edit_req p ?ed) (srv st))))"
    using assms ed by (simp add: table_inv_def updateProduct_store_inv updateProduct_renders)
  then have s: "store_inv (db (srv (updateProductView env dl st))) \<and>
                store_renders (db (srv (updateProductView env dl st)))"
    using table_inv_round_trip [OF assms] Some by (simp add: srv_updateProductView)
  then have "list_all prod_ok (products (ui (updateProductView env dl st)))"
    using updateProductView_products [of env dl st] fetch_prod_ok assms
    unfolding table_inv_def by metis
  with s assms show ?thesis using updateProductView_fields [of env dl st] by (simp add: table_inv_def)
qed

lemma view_step_table_inv:
  assumes "table_inv st" "view_step env dl st e = Some st'"
  shows "table_inv st'"
proof (cases e)
  case (ToggleRow n)
  with assms show ?thesis using table_inv_row_action [OF assms(1), of Stock]
    by (auto simp: toggleStock_def Let_def split_def split: if_splits)
next
  case (DeleteRow n)
  with assms show ?thesis using table_inv_row_action [OF assms(1), of Delete]
    by (auto simp: deleteProductView_def Let_def split_def split: if_splits)
next
  case (EditRow n)
  with assms(2) have n: "n < length (products (ui st))" and st': "st' = st\<lparr>ui := editRow (products (ui st) ! n) (ui st)\<rparr>"
    by (auto split: if_splits)
  from n assms(1) have "prod_ok (products (ui st) ! n)" by (simp add: table_inv_def list_all_length)
  with assms(1) st' show ?thesis
    using child_ok_snapshot keys_snapshot by (simp add: table_inv_def editRow_def)
next
  case (EditField k x)
  with assms(2) have k: "k \<in> edit_keys" and st': "st' = st\<lparr>ui := (ui st)\<lparr>editData := jput k (JStr x) (editData (ui st))\<rparr>\<rparr>"
    by (auto simp: edit_keys_def split: if_splits)
  have "list_all (\<lambda>(k, v). child_ok (Some v)) (jput k (JStr x) (editData (ui st)))"
    using assms(1) set_jput [of k "JStr x" "editData (ui st)"]
    by (auto simp: table_inv_def list_all_iff child_ok_def child_def)
  with assms(1) st' k show ?thesis by (auto simp: table_inv_def)
next
  case CancelEdit
  with assms show ?thesis by (auto simp: table_inv_def split: if_splits)
next
  case SaveEdit
  with assms show ?thesis using table_inv_save [OF assms(1), of env dl] by (auto split: if_splits)
next
  case Fetch
  with assms show ?thesis using fetch_prod_ok by (auto simp: table_inv_def)
qed

lemma view_run_table_inv: "table_inv st \<Longrightarrow> view_run env st evs = Some st' \<Longrightarrow> table_inv st'"
proof (induction evs arbitrary: st)
  case (Cons de evs)
  obtain dl e where de: "de = (dl, e)" by (cases de)
  with Cons.prems obtain st1 where "view_step env dl st e = Some st1" "view_run env st1 evs = Some st'"
    by (auto split: option.splits)
  with Cons show ?case using view_step_table_inv by blast
qed simp

lemma table_inv_init: "store_inv (db s) \<Longrightarrow> store_renders (db s) \<Longrightarrow> table_inv \<lparr>srv = s, ui = view_init\<rparr>"
  by (simp add: table_inv_def view_init_def child_ok_def child_def keys_def edit_keys_def)

lemma render_rows_Inl:
  "p \<in> set ps \<Longrightarrow> render_row c p = Inl e \<Longrightarrow> \<exists>e'. render_rows c ps = Inl e'"
  by (induction ps) (auto split: sum.splits)

lemma render_row_null_image:
  assumes "distinct (keys d)" "''_id'' \<notin> set (keys d)" "jget d ''image'' = Some JNull"
  shows "render_row c (doc_json (i, d)) = Inl ''Cannot read properties of null (reading 0)''"
  using assms jprop_doc_json [OF assms(1,2), of i "''image''"]
  by (simp add: render_row_def doc_json_def index0_def)

lemma null_image_update:
  assumes "store_inv (db s)" "map_of (docs (db s)) i = Some d" "valid_update env [(''image'', JNull)]"
  shows "updateProduct env (null_image_req i) s =
           (s\<lparr>db := (db s)\<lparr>docs := replace_doc i (jput ''image'' JNull d) (docs (db s))\<rparr>\<rparr>,
            JObj [(''success'', JBool True), (''message'', JStr ''Product updated successfully''),
                  (''product'', doc_json (i, jput ''image'' JNull d))])"
proof -
  from assms(1,2) have "doc_wf (next_id (db s)) (i, d)"
    by (auto simp: store_inv_def list_all_iff dest: map_of_SomeD)
  then have "cast_oid i = Some i" by (simp add: doc_wf_def)
  with assms(2,3) show ?thesis
    by (simp add: updateProduct_def update_data_def null_image_req_def update_uploads_def param_id_def
        find_by_id_and_update_def schema_filter_def product_paths_def Let_def)
qed

section \<open>Properties of the table\<close>

text \<open>
  C31. After a refetch from a consistent store whose documents the table
  can show, the table has one row per stored product, in the store's order:
  keyed by the product's id, showing its first image, its name, category,
  price and quantity as text and its stock flag; the React keys are
  distinct.
\<close>

theorem fetch_renders_store:
  assumes "store_inv (db s)" "store_renders (db s)"
  shows "render_table c (fetch_products env s v) = Inr (map (doc_row c) (docs (db s))) \<and>
         distinct (map row_key (map (doc_row c) (docs (db s))))"
proof -
  have "render_rows c (map doc_json (docs (db s))) = Inr (map (doc_row c) (docs (db s)))"
    using assms by (intro render_rows_docs [of "next_id (db s)"]) (simp_all add: store_inv_def store_renders_def)
  moreover have "distinct (map row_key (map (doc_row c) (docs (db s))))"
    using assms(1) by (simp add: store_inv_def doc_row_def comp_def distinct_map inj_on_def)
  ultimately show ?thesis by (simp add: render_table_def)
qed

theorem fetch_renders_store_witness:
  "store_inv (db sample_server) \<and> store_renders (db sample_server) \<and>
   render_table ''$'' (fetch_products sample_env sample_server view_init) =
     Inr [\<lparr>row_key = Some (JStr (hex_pad 24 0)), row_src = Some (JStr ''u0''), row_cells = [''Milk'', [], ''$'', []],
           row_checked = True\<rparr>]"
proof -
  have h: "store_inv (db sample_server)" "store_renders (db sample_server)"
    by (simp_all add: sample_server_def store_inv_def doc_wf_def canonical_def keys_def product_paths_def
        store_renders_def doc_renders_def render_keys_def field_ok_def child_ok_def child_def image_val_def)
  show ?thesis using fetch_renders_store [OF h, of "''$''" sample_env view_init] h
    by (simp add: sample_server_def doc_row_def child_def image_val_def)
qed


text \<open>
  C32. Nothing the seller does in the product list makes the table throw:
  from a consistent store the table can show, after any sequence of
  refetches, stock toggles, deletes and edits, each with any network
  outcome, the table still renders. Toggles write only \<open>inStock\<close>, and edits
  write only the four edit fields, whose values are strings typed in or
  values the table showed.
\<close>

theorem view_table_always_renders:
  assumes "store_inv (db s)" "store_renders (db s)" "view_run env \<lparr>srv = s, ui = view_init\<rparr> evs = Some st"
  shows "\<exists>rows. render_table c (ui st) = Inr rows"
proof -
  have "table_inv st" using view_run_table_inv [OF table_inv_init [OF assms(1,2)] assms(3)] .
  then show ?thesis by (simp add: render_table_def table_inv_def render_rows_ok)
qed

theorem view_table_always_renders_witness:
  "store_inv (db sample_server) \<and> store_renders (db sample_server) \<and>
   view_run sample_env \<lparr>srv = sample_server, ui = view_init\<rparr>
     [(Delivered, Fetch), (Delivered, ToggleRow 0), (ResponseLost ''Network Error'', DeleteRow 0)] =
   Some (the (view_run sample_env \<lparr>srv = sample_server, ui = view_init\<rparr>
     [(Delivered, Fetch), (Delivered, ToggleRow 0), (ResponseLost ''Network Error'', DeleteRow 0)])) \<and>
   (\<exists>rows. render_table ''$'' (ui (the (view_run sample_env \<lparr>srv = sample_server, ui = view_init\<rparr>
     [(Delivered, Fetch), (Delivered, ToggleRow 0), (ResponseLost ''Network Error'', DeleteRow 0)]))) = Inr rows)"
proof -
  have h: "store_inv (db sample_server)" "store_renders (db sample_server)"
    by (simp_all add: sample_server_def store_inv_def doc_wf_def canonical_def keys_def product_paths_def
        store_renders_def doc_renders_def render_keys_def field_ok_def child_ok_def child_def image_val_def)
  have r: "view_run sample_env \<lparr>srv = sample_server, ui = view_init\<rparr>
     [(Delivered, Fetch), (Delivered, ToggleRow 0), (ResponseLost ''Network Error'', DeleteRow 0)] =
   Some (the (view_run sample_env \<lparr>srv = sample_server, ui = view_init\<rparr>
     [(Delivered, Fetch), (Delivered, ToggleRow 0), (ResponseLost ''Network Error'', DeleteRow 0)]))"
    by (simp add: sample_defs eval_defs view_init_def Let_def toggleStock_def deleteProductView_def
        round_trip_def stock_req_def delete_req_def opt_field_def after_answer_def resp_success_def
        resp_message_def resp_fields_def doc_json_def)
  show ?thesis using view_table_always_renders [OF h r] h r by blast
qed


text \<open>
  C33. The update endpoint accepts an image list of \<open>null\<close>: a request
  whose body, without \<open>productData\<close>, sets \<open>image\<close> to \<open>null\<close> for a
  stored product is answered with success, and after the next refetch the
  seller's table throws on \<open>product.image[0]\<close> and shows nothing.
\<close>

theorem null_image_breaks_table:
  assumes "store_inv (db s)" "map_of (docs (db s)) i = Some d" "valid_update env [(''image'', JNull)]"
  shows "resp_success (snd (updateProduct env (null_image_req i) s)) \<and>
         (\<exists>e. render_table c (fetch_products env (fst (updateProduct env (null_image_req i) s)) v) = Inl e)"
proof -
  let ?d = "jput ''image'' JNull d"
  have wf: "doc_wf (next_id (db s)) (i, d)" using assms(1,2)
    by (auto simp: store_inv_def list_all_iff dest: map_of_SomeD)
  then have k: "distinct (keys ?d)" "''_id'' \<notin> set (keys ?d)"
    by (auto simp: doc_wf_def product_paths_def)
  have "(i, ?d) \<in> set (replace_doc i ?d (docs (db s)))"
    using map_of_SomeD [OF assms(2)] by (force simp: replace_doc_def)
  then have "doc_json (i, ?d) \<in> set (map doc_json (replace_doc i ?d (docs (db s))))" by simp
  moreover have "render_row c (doc_json (i, ?d)) = Inl ''Cannot read properties of null (reading 0)''"
    using k by (intro render_row_null_image) simp_all
  ultimately show ?thesis
    using null_image_update [OF assms] render_rows_Inl
    by (simp add: render_table_def resp_success_def resp_fields_def)
qed

theorem null_image_breaks_table_witness:
  "store_inv (db sample_server) \<and>
   map_of (docs (db sample_server)) (hex_pad 24 0) =
     Some [(''name'', JStr ''Milk''), (''image'', image_val [''u0'']), (''inStock'', JBool True)] \<and>
   valid_update sample_env [(''image'', JNull)] \<and>
   resp_success (snd (updateProduct sample_env (null_image_req (hex_pad 24 0)) sample_server)) \<and>
   (\<exists>e. render_table ''$'' (fetch_products sample_env
          (fst (updateProduct sample_env (null_image_req (hex_pad 24 0)) sample_server)) view_init) = Inl e)"
proof -
  have h: "store_inv (db sample_server)"
    "map_of (docs (db sample_server)) (hex_pad 24 0) =
       Some [(''name'', JStr ''Milk''), (''image'', image_val [''u0'']), (''inStock'', JBool True)]"
    "valid_update sample_env [(''image'', JNull)]"
    by (simp_all add: sample_defs store_inv_def doc_wf_def canonical_def keys_def product_paths_def)
  show ?thesis using null_image_breaks_table [OF h, of "''$''" view_init] h by blast
qed


text \<open>
  A stock toggle whose answer is lost leaves the table stale: the server
  has run \<open>changeStock\<close>, but the view only adds the network error toast
  and keeps its rows, so the switch shows the old stock state until the next
  refetch.
\<close>

theorem lost_toggle_keeps_rows:
  assumes "view_step env (ResponseLost m) st (ToggleRow n) = Some st'"
  shows "ui st' = (ui st)\<lparr>toasts := toasts (ui st) @ [ToastError m]\<rparr> \<and>
         srv st' = fst (changeStock env (stock_req (jget (resp_fields (products (ui st) ! n)) ''_id'')
                          (\<not> truthy (jget (resp_fields (products (ui st) ! n)) ''inStock''))) (srv st))"
  using assms by (auto simp: toggleStock_def round_trip_def after_answer_def Let_def split: if_splits prod.splits)

theorem lost_toggle_keeps_rows_witness:
  "view_step sample_env (ResponseLost ''Network Error'') sample_loaded (ToggleRow 0) =
     Some (the (view_step sample_env (ResponseLost ''Network Error'') sample_loaded (ToggleRow 0))) \<and>
   map row_checked (projr (render_table ''$''
     (ui (the (view_step sample_env (ResponseLost ''Network Error'') sample_loaded (ToggleRow 0)))))) = [True] \<and>
   jget (snd (hd (docs (db (srv (the (view_step sample_env (ResponseLost ''Network Error'') sample_loaded
     (ToggleRow 0)))))))) ''inStock'' = Some (JBool False)"
proof -
  define st' where "st' = the (view_step sample_env (ResponseLost ''Network Error'') sample_loaded (ToggleRow 0))"
  have h: "view_step sample_env (ResponseLost ''Network Error'') sample_loaded (ToggleRow 0) = Some st'"
    by (simp add: st'_def sample_loaded_def sample_server_def Let_def)
  note c = lost_toggle_keeps_rows [OF h]
  have u: "products (ui st') = products (ui sample_loaded)" using c by simp
  have r: "map row_checked (projr (render_table ''$'' (ui st'))) = [True]"
    by (simp add: render_table_def u sample_loaded_def sample_server_def render_row_def jprop_def doc_json_def
        index0_def child_def image_val_def jmerge_def)
  have d: "jget (snd (hd (docs (db (srv st'))))) ''inStock'' = Some (JBool False)"
    using c by (simp add: sample_loaded_def sample_defs eval_defs stock_req_def opt_field_def resp_fields_def
        doc_json_def)
  show ?thesis using h r d by (simp add: st'_def [symmetric])
qed

end
