(* ===== verification/Scanner.thy ===== *)
theory Scanner
  imports AddProduct
begin

text \<open>
  The barcode scanner of \<open>AddProduct.jsx\<close> and the page as a whole. React
  runs the effect of lines 26--61 after a render in which \<open>isScanning\<close>
  changed: first the previous run's cleanup, then the new run. Both are
  closures over the render they come from, so \<open>stopCamera\<close> inside them
  stops the \<open>stream\<close> that render saw, not the current one; the same holds
  for the callbacks a run registers (the camera promise and the decoder's
  callback). \<open>commit_effect\<close> is that render-and-effect cycle; the camera's
  answers, the decoder's result and the lookup's answer are events of their
  own, in any order, so interleavings of two scan sessions are steps of the
  relation \<open>page_reach\<close>, or of \<open>page_run\<close> over a list of events; the two
  agree (C30). Submitting posts to the controller through \<open>round_trip\<close>.
  A live stream that no state, closure or outstanding callback refers to is
  \<open>orphaned\<close>, and stays live for good (C27).
\<close>

section \<open>Camera and decoder\<close>

definition remove_at :: "nat \<Rightarrow> 'a list \<Rightarrow> 'a list" where
  "remove_at i xs = take i xs @ drop (Suc i) xs"

text \<open>\<open>stopCamera\<close> (lines 64--69), run with the \<open>stream\<close> its closure saw:
  the reader is reset (every decode loop stops) and the stream's tracks, if
  it is not \<open>null\<close>, are stopped.\<close>

definition stopCamera :: "nat option \<Rightarrow> page \<Rightarrow> page" where
  "stopCamera s p = p\<lparr>loops := [], live := (case s of None \<Rightarrow> live p | Some k \<Rightarrow> removeAll k (live p))\<rparr>"

text \<open>The effect on \<open>[isScanning]\<close>: when the value changed, the previous
  run's cleanup stops the stream it saw; the new run closes over the current
  \<open>stream\<close> and, when scanning (the video element is then mounted), asks for
  the camera.\<close>

definition commit_effect :: "page \<Rightarrow> page" where
  "commit_effect p =
     (if isScanning p = eff_scanning p then p
      else (let p1 = (stopCamera (eff_stream p) p)\<lparr>eff_scanning := isScanning p, eff_stream := stream p\<rparr> in
            if isScanning p then p1\<lparr>pending := pending p1 @ [stream p]\<rparr> else p1))"

text \<open>The Start button (line 289) and the Stop button (lines 321--324).\<close>

definition startScanning :: "page \<Rightarrow> page" where
  "startScanning p = commit_effect (p\<lparr>isScanning := True\<rparr>)"

definition stopScanning :: "page \<Rightarrow> page" where
  "stopScanning p = commit_effect ((stopCamera (stream p) p)\<lparr>isScanning := False\<rparr>)"

text \<open>The camera promise of one effect run resolves (lines 30--49): the
  stream becomes state and is live; if the video element is mounted the
  decoder starts, with a callback closing over that run's \<open>stream\<close>;
  otherwise \<open>videoRef.current.srcObject\<close> throws and the \<open>catch\<close> of
  lines 51--54 runs.\<close>

definition cameraGranted :: "nat \<Rightarrow> page \<Rightarrow> page" where
  "cameraGranted i p =
     (let c = pending p ! i; k = next_stream p;
          p1 = p\<lparr>pending := remove_at i (pending p), next_stream := Suc k, stream := Some k,
                 live := live p @ [k]\<rparr> in
      commit_effect
        (if isScanning p then p1\<lparr>loops := loops p1 @ [c]\<rparr>
         else (toast_page [ToastError ''Camera access denied or unavailable''] p1)\<lparr>isScanning := False\<rparr>))"

definition cameraDenied :: "nat \<Rightarrow> page \<Rightarrow> page" where
  "cameraDenied i p =
     commit_effect ((toast_page [ToastError ''Camera access denied or unavailable'']
                       (p\<lparr>pending := remove_at i (pending p)\<rparr>))\<lparr>isScanning := False\<rparr>)"

text \<open>The decoder's callback with a result (lines 39--47): the code is
  stored, the lookup starts (its first toast is synchronous), scanning ends,
  and the callback's own \<open>stopCamera\<close> runs with the stream its closure saw.\<close>

definition barcodeDecoded :: "nat \<Rightarrow> string \<Rightarrow> page \<Rightarrow> page" where
  "barcodeDecoded i code p =
     (let c = loops p ! i;
          p1 = (toast_page [ToastSuccess (''Detected Barcode: '' @ code), ToastLoading ''Fetching product info...'']
                  (p\<lparr>form_barcode := JStr code, lookups := lookups p @ [code]\<rparr>))\<lparr>isScanning := False\<rparr> in
      commit_effect (stopCamera c p1))"

definition lookupDone :: "nat \<Rightarrow> string + jval \<Rightarrow> page \<Rightarrow> page" where
  "lookupDone i r p = handleBarcodeLookup_done r (p\<lparr>lookups := remove_at i (lookups p)\<rparr>)"

section \<open>Leaving the page\<close>

text \<open>On unmount React runs the cleanup of the last effect run, which calls
  \<open>stopCamera\<close> with the \<open>stream\<close> that run saw, and the component's
  state is gone. Outstanding callbacks still run: their \<open>set\<close> calls are
  ignored, their toasts still show (the toaster belongs to the app), and
  \<open>videoRef.current\<close> is \<open>null\<close>, so a camera granted now throws at
  line 32 after the stream was opened, and the \<open>catch\<close> shows its
  error.\<close>

definition unmount :: "page \<Rightarrow> page" where
  "unmount p = (stopCamera (eff_stream p) p)\<lparr>mounted := False\<rparr>"

definition cameraGranted_unmounted :: "nat \<Rightarrow> page \<Rightarrow> page" where
  "cameraGranted_unmounted i p =
     (let k = next_stream p in
      toast_page [ToastError ''Camera access denied or unavailable'']
        (p\<lparr>pending := remove_at i (pending p), next_stream := Suc k, live := live p @ [k]\<rparr>))"

definition cameraDenied_unmounted :: "nat \<Rightarrow> page \<Rightarrow> page" where
  "cameraDenied_unmounted i p =
     toast_page [ToastError ''Camera access denied or unavailable''] (p\<lparr>pending := remove_at i (pending p)\<rparr>)"

definition lookupDone_unmounted :: "nat \<Rightarrow> string + jval \<Rightarrow> page \<Rightarrow> page" where
  "lookupDone_unmounted i r p =
     p\<lparr>lookups := remove_at i (lookups p), page_toasts := page_toasts (handleBarcodeLookup_done r p)\<rparr>"

section \<open>The page with the server\<close>

record psys =
  psrv :: server
  pg :: page

datatype page_event =
    StartScan
  | StopScan
  | CameraGranted nat
  | CameraDenied nat
  | Decoded nat string
  | LookupDone nat "string + jval"
  | SetText field string
  | SetFile nat "filepath option"
  | Submit delivery
  | ConfirmEdit
  | ConfirmSave delivery
  | Unmount

text \<open>\<open>onSubmitHandler\<close> (lines 100--132), run once the browser's check of the
  required inputs passed.\<close>

definition onSubmit :: "env \<Rightarrow> delivery \<Rightarrow> psys \<Rightarrow> psys" where
  "onSubmit env dl st =
     (case productData (pg st) of
        Inl e \<Rightarrow> st\<lparr>pg := toast_page [ToastError e] (pg st)\<rparr>
      | Inr pd \<Rightarrow>
          (let (s', a) = round_trip env dl Add (submit_req pd (pg st)) (psrv st) in
           \<lparr>psrv = s', pg = submit_done a (pg st)\<rparr>))"

text \<open>A step: each control only while it is rendered (Start when not
  scanning, Stop while scanning, the dialog while \<open>showConfirm\<close>), each
  callback only while it is outstanding; no control once the page is left. "No, Save Directly" (lines 348--351)
  hides the dialog and calls \<open>requestSubmit()\<close>, which submits only if the
  required inputs are filled.\<close>

fun page_step :: "env \<Rightarrow> psys \<Rightarrow> page_event \<Rightarrow> psys option" where
  "page_step env st StartScan =
     (if mounted (pg st) \<and> \<not> isScanning (pg st) then Some (st\<lparr>pg := startScanning (pg st)\<rparr>) else None)"
| "page_step env st StopScan =
     (if mounted (pg st) \<and> isScanning (pg st) then Some (st\<lparr>pg := stopScanning (pg st)\<rparr>) else None)"
| "page_step env st (CameraGranted i) =
     (if i < length (pending (pg st))
      then Some (st\<lparr>pg := if mounted (pg st) then cameraGranted i (pg st) else cameraGranted_unmounted i (pg st)\<rparr>)
      else None)"
| "page_step env st (CameraDenied i) =
     (if i < length (pending (pg st))
      then Some (st\<lparr>pg := if mounted (pg st) then cameraDenied i (pg st) else cameraDenied_unmounted i (pg st)\<rparr>)
      else None)"
| "page_step env st (Decoded i code) =
     (if i < length (loops (pg st)) then Some (st\<lparr>pg := barcodeDecoded i code (pg st)\<rparr>) else None)"
| "page_step env st (LookupDone i r) =
     (if i < length (lookups (pg st))
      then Some (st\<lparr>pg := if mounted (pg st) then lookupDone i r (pg st) else lookupDone_unmounted i r (pg st)\<rparr>)
      else None)"
| "page_step env st (SetText f x) = (if mounted (pg st) then Some (st\<lparr>pg := set_field f (JStr x) (pg st)\<rparr>) else None)"
| "page_step env st (SetFile i f) =
     (if mounted (pg st) \<and> i < 4 then Some (st\<lparr>pg := set_file i f (pg st)\<rparr>) else None)"
| "page_step env st (Submit dl) =
     (if mounted (pg st) \<and> form_valid (pg st) then Some (onSubmit env dl st) else None)"
| "page_step env st ConfirmEdit =
     (if mounted (pg st) \<and> showConfirm (pg st) then Some (st\<lparr>pg := (pg st)\<lparr>showConfirm := False\<rparr>\<rparr>) else None)"
| "page_step env st (ConfirmSave dl) =
     (if mounted (pg st) \<and> showConfirm (pg st)
      then (let st1 = st\<lparr>pg := (pg st)\<lparr>showConfirm := False\<rparr>\<rparr> in
            Some (if form_valid (pg st1) then onSubmit env dl st1 else st1))
      else None)"
| "page_step env st Unmount = (if mounted (pg st) then Some (st\<lparr>pg := unmount (pg st)\<rparr>) else None)"

fun page_run :: "env \<Rightarrow> psys \<Rightarrow> page_event list \<Rightarrow> psys option" where
  "page_run env st [] = Some st"
| "page_run env st (e # es) = (case page_step env st e of None \<Rightarrow> None | Some st' \<Rightarrow> page_run env st' es)"

inductive page_reach :: "env \<Rightarrow> psys \<Rightarrow> bool" for env where
  init: "page_reach env \<lparr>psrv = s, pg = page_init\<rparr>"
| step: "page_reach env st \<Longrightarrow> page_step env st e = Some st' \<Longrightarrow> page_reach env st'"

text \<open>What every reachable page keeps: the mounted effect ran with the current
  \<open>isScanning\<close>, and a decode loop runs only while scanning on the mounted
  page.\<close>

definition scan_inv :: "page \<Rightarrow> bool" where
  "scan_inv p = (eff_scanning p = isScanning p \<and> (loops p \<noteq> [] \<longrightarrow> isScanning p \<and> mounted p))"

definition sample_psys :: psys where
  "sample_psys = \<lparr>psrv = sample_server, pg = page_init\<rparr>"

text \<open>The page after Start and the camera's answer, and after a decode.\<close>

definition sample_scanning :: psys where
  "sample_scanning = the (page_run sample_env sample_psys [StartScan, CameraGranted 0])"

definition sample_decoded :: psys where
  "sample_decoded = the (page_run sample_env sample_psys [StartScan, CameraGranted 0, Decoded 0 ''737628064502''])"

text \<open>The scanner's part of the page, which the form's own operations leave
  alone.\<close>

definition scan_part :: "page \<Rightarrow> bool \<times> bool \<times> nat option list \<times> nat list \<times> nat option \<times>
                                  nat option \<times> nat option list \<times> nat \<times> bool" where
  "scan_part p = (isScanning p, eff_scanning p, loops p, live p, stream p, eff_stream p, pending p, next_stream p,
                  mounted p)"

text \<open>A live camera stream is \<open>held\<close> while something can still stop it: the
  \<open>stream\<close> state (the Stop button's closure) or the value the mounted
  effect closed over (its cleanup), while the page is mounted, or an
  outstanding camera request or decode loop whose closure saw it. A live stream that nothing holds is \<open>orphaned\<close>.\<close>

definition held :: "nat \<Rightarrow> page \<Rightarrow> bool" where
  "held k p = ((mounted p \<and> (stream p = Some k \<or> eff_stream p = Some k)) \<or>
               Some k \<in> set (pending p) \<or> Some k \<in> set (loops p))"

definition orphaned :: "nat \<Rightarrow> page \<Rightarrow> bool" where
  "orphaned k p = (k \<in> set (live p) \<and> \<not> held k p \<and> k < next_stream p)"

lemmas scan_defs = startScanning_def stopScanning_def cameraGranted_def cameraDenied_def barcodeDecoded_def
  lookupDone_def commit_effect_def stopCamera_def remove_at_def toast_page_def page_init_def Let_def
  unmount_def cameraGranted_unmounted_def cameraDenied_unmounted_def lookupDone_unmounted_def

section \<open>Lemmas\<close>

lemma commit_effect_fields [simp]:
  "isScanning (commit_effect p) = isScanning p"
  "eff_scanning (commit_effect p) = isScanning p"
  "loops (commit_effect p) = (if isScanning p = eff_scanning p then loops p else [])"
  "live (commit_effect p) =
     (if isScanning p = eff_scanning p then live p else live (stopCamera (eff_stream p) p))"
  "mounted (commit_effect p) = mounted p"
  by (simp_all add: commit_effect_def Let_def stopCamera_def)

lemma stopCamera_fields [simp]:
  "isScanning (stopCamera s p) = isScanning p" "eff_scanning (stopCamera s p) = eff_scanning p"
  "loops (stopCamera s p) = []" "stream (stopCamera s p) = stream p" "eff_stream (stopCamera s p) = eff_stream p"
  "live (stopCamera s p) = (case s of None \<Rightarrow> live p | Some k \<Rightarrow> removeAll k (live p))"
  "mounted (stopCamera s p) = mounted p"
  by (simp_all add: stopCamera_def)

lemma scan_part_toast_page [simp]: "scan_part (toast_page ts p) = scan_part p"
  by (simp add: scan_part_def toast_page_def)

lemma scan_part_lookup [simp]: "scan_part (handleBarcodeLookup_done r p) = scan_part p"
  by (simp add: handleBarcodeLookup_done_def lookup_failed_def scan_part_def toast_page_def Let_def
      split: sum.splits option.splits)

lemma scan_part_lookupDone [simp]: "scan_part (lookupDone i r p) = scan_part p"
  by (simp add: lookupDone_def) (simp add: scan_part_def)

lemma scan_part_lookupDone_unmounted [simp]:
  "scan_part (lookupDone_unmounted i r p) = scan_part p"
  by (simp add: lookupDone_unmounted_def scan_part_def)

lemma scan_part_submit_done [simp]: "scan_part (submit_done a p) = scan_part p"
  by (simp add: submit_done_def reset_form_def scan_part_def toast_page_def split: sum.splits)

lemma scan_part_onSubmit [simp]: "scan_part (pg (onSubmit env dl st)) = scan_part (pg st)"
  by (simp add: onSubmit_def Let_def split: sum.splits prod.splits)

lemma scan_part_set_field [simp]: "scan_part (set_field f v p) = scan_part p"
  by (cases f) (simp_all add: scan_part_def)

lemma scan_part_set_file [simp]: "scan_part (set_file i f p) = scan_part p"
  by (simp add: set_file_def scan_part_def)

lemma mounted_simps [simp]:
  "mounted page_init" "mounted (set_file i f p) = mounted p" "mounted (set_field fl v p) = mounted p"
  "mounted (lookupDone i r p) = mounted p" "mounted (toast_page ts p) = mounted p"
  using scan_part_set_file [of i f p] scan_part_set_field [of fl v p] scan_part_lookupDone [of i r p]
  by (simp_all add: page_init_def scan_part_def toast_page_def)

lemma scan_inv_scan_part: "scan_part p = scan_part q \<Longrightarrow> scan_inv q \<Longrightarrow> scan_inv p"
  by (simp add: scan_part_def scan_inv_def)

lemma scan_inv_commit: "(loops p \<noteq> [] \<longrightarrow> isScanning p \<and> mounted p) \<or> isScanning p \<noteq> eff_scanning p \<Longrightarrow>
  scan_inv (commit_effect p)"
  by (auto simp: scan_inv_def)

lemma page_step_scan_inv:
  assumes "scan_inv (pg st)" "page_step env st e = Some st'"
  shows "scan_inv (pg st')"
proof (cases e)
  case (CameraGranted i)
  with assms show ?thesis
    by (auto simp: cameraGranted_def cameraGranted_unmounted_def Let_def scan_inv_def toast_page_def
        split: if_splits)
next
  case (CameraDenied i)
  with assms show ?thesis
    by (auto simp: cameraDenied_def cameraDenied_unmounted_def scan_inv_def toast_page_def split: if_splits)
next
  case (Decoded i code)
  with assms show ?thesis
    by (auto simp: barcodeDecoded_def Let_def scan_inv_def toast_page_def split: if_splits)
next
  case (LookupDone i r)
  with assms show ?thesis
    by (auto split: if_splits intro: scan_inv_scan_part [OF scan_part_lookupDone]
        scan_inv_scan_part [OF scan_part_lookupDone_unmounted])
next
  case (SetText f x)
  with assms show ?thesis by (auto split: if_splits intro: scan_inv_scan_part [OF scan_part_set_field])
next
  case (SetFile i f)
  with assms show ?thesis by (auto split: if_splits intro: scan_inv_scan_part [OF scan_part_set_file])
next
  case (Submit dl)
  with assms show ?thesis by (auto split: if_splits intro: scan_inv_scan_part [OF scan_part_onSubmit])
next
  case ConfirmEdit
  with assms show ?thesis by (auto simp: scan_inv_def split: if_splits)
next
  case (ConfirmSave dl)
  let ?st1 = "st\<lparr>pg := (pg st)\<lparr>showConfirm := False\<rparr>\<rparr>"
  have i1: "scan_inv (pg ?st1)" using assms(1) by (simp add: scan_inv_def)
  then have "scan_inv (pg (onSubmit env dl ?st1))" by (rule scan_inv_scan_part [OF scan_part_onSubmit])
  with i1 ConfirmSave assms(2) show ?thesis by (auto simp: Let_def split: if_splits)
qed (use assms in \<open>auto simp: startScanning_def stopScanning_def unmount_def scan_inv_def split: if_splits\<close>)

lemma page_reach_scan_inv: "page_reach env st \<Longrightarrow> scan_inv (pg st)"
proof (induction rule: page_reach.induct)
  case (init s)
  show ?case by (simp add: scan_inv_def page_init_def)
next
  case (step st e st')
  then show ?case by (blast intro: page_step_scan_inv)
qed

lemma sample_scanning_eq:
  "page_run sample_env sample_psys [StartScan, CameraGranted 0] = Some sample_scanning"
  "pg sample_scanning = page_init\<lparr>isScanning := True, stream := Some 0, eff_scanning := True,
     next_stream := 1, live := [0], loops := [None]\<rparr>"
  by (simp_all add: sample_scanning_def sample_psys_def scan_defs)

lemma page_run_reach: "page_reach env st \<Longrightarrow> page_run env st es = Some st' \<Longrightarrow> page_reach env st'"
proof (induction es arbitrary: st)
  case Nil
  then show ?case by simp
next
  case (Cons e es)
  then obtain st1 where "page_step env st e = Some st1" "page_run env st1 es = Some st'"
    by (auto split: option.splits)
  with Cons show ?case by (blast intro: page_reach.step)
qed

lemma reach_sample_scanning: "page_reach sample_env sample_scanning"
  using page_run_reach [OF _ sample_scanning_eq(1)] page_reach.init [of sample_env sample_server]
  by (simp add: sample_psys_def)

lemma lookup_confirm_cases:
  "showConfirm (handleBarcodeLookup_done r p) = showConfirm p \<or>
   form_price (handleBarcodeLookup_done r p) = JStr []"
  by (auto simp: handleBarcodeLookup_done_def lookup_failed_def toast_page_def Let_def
      split: sum.split option.split)

lemma lookup_confirm_price:
  "\<not> showConfirm p \<Longrightarrow> showConfirm (handleBarcodeLookup_done r p) \<Longrightarrow>
   form_price (handleBarcodeLookup_done r p) = JStr []"
  using lookup_confirm_cases [of r p] by auto

section \<open>Files, runs and settling the camera\<close>

lemma page_run_append:
  "page_run env st (es @ fs) = (case page_run env st es of None \<Rightarrow> None | Some st' \<Rightarrow> page_run env st' fs)"
  by (induction es arbitrary: st) (auto split: option.splits)

lemma form_files_lookup [simp]: "form_files (handleBarcodeLookup_done r p) = form_files p"
  by (auto simp: handleBarcodeLookup_done_def lookup_failed_def toast_page_def Let_def
      split: sum.split option.split)

lemma form_files_submit_done: "form_files (submit_done a p) = form_files p \<or> form_files (submit_done a p) = []"
  by (auto simp: submit_done_def reset_form_def toast_page_def split: sum.split)

lemma form_files_onSubmit:
  "length (form_files (pg (onSubmit env dl st))) \<le> length (form_files (pg st))"
proof (cases "productData (pg st)")
  case (Inl e)
  then show ?thesis by (simp add: onSubmit_def toast_page_def)
next
  case (Inr pd)
  obtain s' a where "round_trip env dl Add (submit_req pd (pg st)) (psrv st) = (s', a)" by fastforce
  with Inr show ?thesis using form_files_submit_done [of a "pg st"] by (auto simp: onSubmit_def)
qed

lemma length_somes: "length (concat (map (\<lambda>f. case f of None \<Rightarrow> [] | Some x \<Rightarrow> [x]) xs)) \<le> length xs"
  by (induction xs) (auto split: option.split)

lemma attached_length: "length (attached p) \<le> length (form_files p)"
  by (simp add: attached_def length_somes)

lemma page_step_files:
  assumes "length (form_files (pg st)) \<le> 4" "page_step env st e = Some st'"
  shows "length (form_files (pg st')) \<le> 4"
proof (cases e)
  case (SetFile i f)
  with assms show ?thesis by (auto simp: set_file_def js_assign_length split: if_splits)
next
  case (Submit dl)
  with assms show ?thesis using form_files_onSubmit [of env dl st] by (auto split: if_splits)
next
  case (ConfirmSave dl)
  with assms show ?thesis using form_files_onSubmit [of env dl "st\<lparr>pg := (pg st)\<lparr>showConfirm := False\<rparr>\<rparr>"]
    by (auto simp: Let_def split: if_splits)
next
  case (SetText f x)
  with assms show ?thesis by (cases f) (auto split: if_splits)
next
  case (LookupDone i r)
  with assms show ?thesis by (auto simp: lookupDone_def lookupDone_unmounted_def split: if_splits)
qed (use assms in \<open>auto simp: scan_defs Let_def toast_page_def stopCamera_def split: if_splits\<close>)

lemma page_reach_files: "page_reach env st \<Longrightarrow> length (form_files (pg st)) \<le> 4"
proof (induction rule: page_reach.induct)
  case (init s)
  show ?case by (simp add: page_init_def)
next
  case (step st e st')
  then show ?case by (blast intro: page_step_files)
qed

lemma map_nth_pad:
  "length xs \<le> n \<Longrightarrow>
   map (\<lambda>i. if i < length xs then xs ! i else None) [0..<n] = xs @ replicate (n - length xs) None"
  by (rule nth_equalityI) (auto simp: nth_append)

lemma preview_files:
  "(case (case x of None \<Rightarrow> UploadArea | Some f \<Rightarrow> Preview f) of Preview f \<Rightarrow> [f] | UploadArea \<Rightarrow> []) =
   (case x of None \<Rightarrow> [] | Some f \<Rightarrow> [f])"
  by (cases x) simp_all

lemma attached_previews:
  assumes "length (form_files p) \<le> 4"
  shows "attached p = concat (map (\<lambda>v. case v of Preview f \<Rightarrow> [f] | UploadArea \<Rightarrow> []) (previews p))"
proof -
  have "previews p = map (\<lambda>x. case x of Some f \<Rightarrow> Preview f | None \<Rightarrow> UploadArea)
      (map (\<lambda>i. if i < length (form_files p) then form_files p ! i else None) [0..<4])"
    by (simp add: previews_def slot_preview_def comp_def)
  also have "\<dots> = map (\<lambda>x. case x of Some f \<Rightarrow> Preview f | None \<Rightarrow> UploadArea)
      (form_files p @ replicate (4 - length (form_files p)) None)"
    using assms by (simp only: map_nth_pad)
  finally show ?thesis by (simp add: attached_def comp_def preview_files)
qed

lemma deny_all:
  assumes "loops (pg st) = []" "mounted (pg st) \<longrightarrow> \<not> isScanning (pg st) \<and> \<not> eff_scanning (pg st)"
  shows "\<exists>st'. page_run env st (replicate (length (pending (pg st))) (CameraDenied 0)) = Some st' \<and>
           loops (pg st') = [] \<and> pending (pg st') = [] \<and> \<not> (mounted (pg st') \<and> isScanning (pg st'))"
  using assms
proof (induction "length (pending (pg st))" arbitrary: st)
  case 0
  then show ?case by auto
next
  case (Suc n)
  let ?st1 = "st\<lparr>pg := if mounted (pg st) then cameraDenied 0 (pg st) else cameraDenied_unmounted 0 (pg st)\<rparr>"
  have s: "page_step env st (CameraDenied 0) = Some ?st1" using Suc.hyps(2) [symmetric] by simp
  have p: "pending (pg ?st1) = tl (pending (pg st))" "loops (pg ?st1) = []"
    "mounted (pg ?st1) \<longrightarrow> \<not> isScanning (pg ?st1) \<and> \<not> eff_scanning (pg ?st1)"
    using Suc.prems by (simp_all add: cameraDenied_def cameraDenied_unmounted_def commit_effect_def toast_page_def
        remove_at_def drop_Suc)
  then have n: "n = length (pending (pg ?st1))" using Suc.hyps(2) by simp
  from Suc.hyps(1) [OF n p(2,3)] obtain st' where
    "page_run env ?st1 (replicate n (CameraDenied 0)) = Some st'"
    "loops (pg st') = [] \<and> pending (pg st') = [] \<and> \<not> (mounted (pg st') \<and> isScanning (pg st'))"
    unfolding n [symmetric] by blast
  with s show ?case by (simp add: Suc.hyps(2) [symmetric] del: page_step.simps)
qed

section \<open>Streams nothing can stop\<close>

lemma orphaned_scan_part: "scan_part p = scan_part q \<Longrightarrow> orphaned k q \<Longrightarrow> orphaned k p"
  by (simp add: scan_part_def orphaned_def held_def)

lemma orphaned_stopCamera: "orphaned k p \<Longrightarrow> s \<noteq> Some k \<Longrightarrow> orphaned k (stopCamera s p)"
  by (auto simp: orphaned_def held_def stopCamera_def split: option.splits)

lemma orphaned_commit: "orphaned k p \<Longrightarrow> mounted p \<Longrightarrow> orphaned k (commit_effect p)"
  by (auto simp: orphaned_def held_def commit_effect_def Let_def stopCamera_def split: option.splits)

lemma orphaned_upd [simp]:
  "orphaned k (p\<lparr>isScanning := b\<rparr>) = orphaned k p" "orphaned k (toast_page ts p) = orphaned k p"
  "orphaned k (p\<lparr>showConfirm := c\<rparr>) = orphaned k p"
  by (simp_all add: orphaned_def held_def toast_page_def)

lemma set_remove_at: "set (remove_at i xs) \<subseteq> set xs"
  by (auto simp: remove_at_def dest: in_set_takeD in_set_dropD)

lemma page_step_orphaned:
  assumes "orphaned k (pg st)" "page_step env st e = Some st'" "scan_inv (pg st)"
  shows "orphaned k (pg st')"
proof (cases e)
  case StartScan
  with assms show ?thesis by (auto simp: startScanning_def intro!: orphaned_commit split: if_splits)
next
  case StopScan
  with assms(2) have "mounted (pg st)" by (simp split: if_splits)
  with assms(1) have "stream (pg st) \<noteq> Some k" by (simp add: orphaned_def held_def)
  with assms StopScan show ?thesis
    by (auto simp: stopScanning_def intro!: orphaned_commit orphaned_stopCamera split: if_splits)
next
  case (CameraGranted i)
  with assms have i: "i < length (pending (pg st))" by (simp split: if_splits)
  then have c: "pending (pg st) ! i \<noteq> Some k" using assms(1) nth_mem by (fastforce simp: orphaned_def held_def)
  define p1 where "p1 = (pg st)\<lparr>pending := remove_at i (pending (pg st)), next_stream := Suc (next_stream (pg st)),
                       stream := Some (next_stream (pg st)), live := live (pg st) @ [next_stream (pg st)]\<rparr>"
  have o1: "orphaned k p1" using assms(1) set_remove_at [of i "pending (pg st)"]
    by (auto simp: p1_def orphaned_def held_def)
  then have "orphaned k (p1\<lparr>loops := loops p1 @ [pending (pg st) ! i]\<rparr>)" using c
    by (simp add: orphaned_def held_def)
  moreover have "orphaned k ((toast_page [ToastError ''Camera access denied or unavailable''] p1)\<lparr>isScanning := False\<rparr>)"
    using o1 by simp
  moreover have "mounted p1 = mounted (pg st)" by (simp add: p1_def)
  ultimately have "mounted (pg st) \<Longrightarrow> orphaned k (cameraGranted i (pg st))"
    by (auto simp: cameraGranted_def Let_def p1_def [symmetric] toast_page_def intro!: orphaned_commit)
  moreover have "orphaned k (cameraGranted_unmounted i (pg st))"
    using assms(1) set_remove_at [of i "pending (pg st)"]
    by (auto simp: cameraGranted_unmounted_def orphaned_def held_def toast_page_def Let_def)
  ultimately show ?thesis using CameraGranted i assms(2) by (auto split: if_splits)
next
  case (CameraDenied i)
  have "orphaned k ((pg st)\<lparr>pending := remove_at i (pending (pg st))\<rparr>)"
    using assms(1) set_remove_at [of i "pending (pg st)"] by (auto simp: orphaned_def held_def)
  then have "mounted (pg st) \<Longrightarrow> orphaned k (cameraDenied i (pg st))" "orphaned k (cameraDenied_unmounted i (pg st))"
    by (simp_all add: cameraDenied_def cameraDenied_unmounted_def orphaned_commit)
  with CameraDenied assms(2) show ?thesis by (auto split: if_splits)
next
  case (Decoded i code)
  with assms have i: "i < length (loops (pg st))" by (simp split: if_splits)
  then have c: "loops (pg st) ! i \<noteq> Some k" using assms(1) nth_mem by (fastforce simp: orphaned_def held_def)
  from i assms(3) have m: "mounted (pg st)" by (auto simp: scan_inv_def)
  have "orphaned k ((toast_page [ToastSuccess (''Detected Barcode: '' @ code), ToastLoading ''Fetching product info...'']
      ((pg st)\<lparr>form_barcode := JStr code, lookups := lookups (pg st) @ [code]\<rparr>))\<lparr>isScanning := False\<rparr>)"
    using assms(1) by (simp add: orphaned_def held_def toast_page_def)
  with c have "orphaned k (stopCamera (loops (pg st) ! i)
      ((toast_page [ToastSuccess (''Detected Barcode: '' @ code), ToastLoading ''Fetching product info...'']
      ((pg st)\<lparr>form_barcode := JStr code, lookups := lookups (pg st) @ [code]\<rparr>))\<lparr>isScanning := False\<rparr>))"
    by (rule_tac orphaned_stopCamera) (simp_all add: toast_page_def)
  then have "orphaned k (barcodeDecoded i code (pg st))"
    unfolding barcodeDecoded_def Let_def by (rule orphaned_commit) (simp add: m)
  with assms Decoded i show ?thesis by auto
next
  case (LookupDone i r)
  with assms show ?thesis
    by (auto intro: orphaned_scan_part [OF scan_part_lookupDone] orphaned_scan_part [OF scan_part_lookupDone_unmounted]
        split: if_splits)
next
  case (SetText f x)
  with assms show ?thesis by (auto intro: orphaned_scan_part [OF scan_part_set_field] split: if_splits)
next
  case (SetFile i f)
  with assms show ?thesis by (auto intro: orphaned_scan_part [OF scan_part_set_file] split: if_splits)
next
  case (Submit dl)
  with assms show ?thesis by (auto intro: orphaned_scan_part [OF scan_part_onSubmit] split: if_splits)
next
  case ConfirmEdit
  with assms show ?thesis by (auto split: if_splits)
next
  case (ConfirmSave dl)
  with assms show ?thesis
    by (auto simp: Let_def intro: orphaned_scan_part [OF scan_part_onSubmit] split: if_splits)
next
  case Unmount
  with assms(2) have m: "mounted (pg st)" and st': "pg st' = unmount (pg st)" by (auto split: if_splits)
  with assms(1) have "eff_stream (pg st) \<noteq> Some k" by (simp add: orphaned_def held_def)
  with assms(1) st' show ?thesis
    by (auto simp: unmount_def orphaned_def held_def stopCamera_def split: option.splits)
qed

lemma page_run_orphaned:
  "orphaned k (pg st) \<Longrightarrow> scan_inv (pg st) \<Longrightarrow> page_run env st es = Some st' \<Longrightarrow> orphaned k (pg st')"
proof (induction es arbitrary: st)
  case (Cons e es)
  then obtain st1 where "page_step env st e = Some st1" "page_run env st1 es = Some st'"
    by (auto split: option.splits)
  with Cons show ?case using page_step_orphaned page_step_scan_inv by blast
qed simp

lemma orphaned_live: "orphaned k p \<Longrightarrow> k \<in> set (live p)"
  by (simp add: orphaned_def)

lemma orphaned_forever:
  "orphaned k (pg st) \<Longrightarrow> scan_inv (pg st) \<Longrightarrow> pred_option (\<lambda>st'. k \<in> set (live (pg st'))) (page_run env st es)"
  using page_run_orphaned [of k st env es] orphaned_live by (cases "page_run env st es") auto

section \<open>Properties of the scanner\<close>



text \<open>
  C17. The Stop button releases the current stream: its tracks are stopped,
  the decoder is reset and scanning ends.
\<close>

theorem stop_releases_stream:
  assumes "page_step env st StopScan = Some st'" "stream (pg st) = Some k"
  shows "k \<notin> set (live (pg st')) \<and> loops (pg st') = [] \<and> \<not> isScanning (pg st')"
  using assms by (auto simp: stopScanning_def stopCamera_def split: option.splits if_splits)

theorem stop_releases_stream_witness:
  "page_step sample_env sample_scanning StopScan = Some (the (page_step sample_env sample_scanning StopScan)) \<and>
   stream (pg sample_scanning) = Some 0 \<and>
   0 \<notin> set (live (pg (the (page_step sample_env sample_scanning StopScan))))"
proof -
  have h1: "page_step sample_env sample_scanning StopScan = Some (the (page_step sample_env sample_scanning StopScan))"
    by (simp add: sample_scanning_eq)
  have h2: "stream (pg sample_scanning) = Some 0" by (simp add: sample_scanning_eq)
  show ?thesis using stop_releases_stream [OF h1 h2] h1 h2 by simp
qed




text \<open>
  C20. When a lookup opens the confirm dialog, "No, Save Directly" submits
  nothing: the lookup has just cleared the required price, so
  \<open>requestSubmit()\<close> stops at the browser's check and only the dialog closes.
\<close>

theorem save_directly_submits_nothing:
  assumes "page_step env st (LookupDone i r) = Some st1" "\<not> showConfirm (pg st)" "showConfirm (pg st1)"
  shows "page_step env st1 (ConfirmSave dl) = Some (st1\<lparr>pg := (pg st1)\<lparr>showConfirm := False\<rparr>\<rparr>)"
proof -
  from assms(1) have "pg st1 = (if mounted (pg st) then lookupDone i r (pg st) else lookupDone_unmounted i r (pg st))"
    by (auto split: if_splits)
  moreover have "showConfirm (lookupDone_unmounted i r (pg st)) = showConfirm (pg st)"
    by (simp add: lookupDone_unmounted_def)
  ultimately have st1: "pg st1 = lookupDone i r (pg st)" and m: "mounted (pg st1)"
    using assms(2,3) by (auto split: if_splits)
  then have "form_price (pg st1) = JStr []"
    using assms(2,3) lookup_confirm_price [of "(pg st)\<lparr>lookups := remove_at i (lookups (pg st))\<rparr>" r]
    by (simp add: lookupDone_def)
  then have "\<not> form_valid ((pg st1)\<lparr>showConfirm := False\<rparr>)" by (simp add: form_valid_def)
  with assms(3) m show ?thesis by (simp add: Let_def)
qed

theorem save_directly_submits_nothing_witness:
  "page_step sample_env sample_decoded (LookupDone 0 (Inr sample_found)) =
     Some (the (page_step sample_env sample_decoded (LookupDone 0 (Inr sample_found)))) \<and>
   \<not> showConfirm (pg sample_decoded) \<and>
   showConfirm (pg (the (page_step sample_env sample_decoded (LookupDone 0 (Inr sample_found))))) \<and>
   psrv (the (page_step sample_env (the (page_step sample_env sample_decoded (LookupDone 0 (Inr sample_found))))
     (ConfirmSave Delivered))) = psrv sample_decoded"
proof -
  have d: "pg sample_decoded = page_init\<lparr>form_barcode := JStr ''737628064502'', lookups := [''737628064502''],
       page_toasts := [ToastSuccess (''Detected Barcode: '' @ ''737628064502''), ToastLoading ''Fetching product info...''],
       stream := Some 0, eff_stream := Some 0, next_stream := 1, live := [0]\<rparr>"
    by (simp add: sample_decoded_def sample_psys_def scan_defs)
  define st1 where "st1 = the (page_step sample_env sample_decoded (LookupDone 0 (Inr sample_found)))"
  have h1: "page_step sample_env sample_decoded (LookupDone 0 (Inr sample_found)) = Some st1"
    by (simp add: d st1_def)
  have h2: "\<not> showConfirm (pg sample_decoded)" by (simp add: d page_init_def)
  have h3: "showConfirm (pg st1)"
    by (simp add: d st1_def lookupDone_def handleBarcodeLookup_done_def sample_found_def jmerge_def Let_def)
  have e: "page_step sample_env st1 (ConfirmSave Delivered) = Some (st1\<lparr>pg := (pg st1)\<lparr>showConfirm := False\<rparr>\<rparr>)"
    by (rule save_directly_submits_nothing [OF h1 h2 h3])
  have p: "psrv st1 = psrv sample_decoded" using h1 by (auto split: if_splits)
  show ?thesis unfolding st1_def [symmetric] using h1 h2 h3 e p by simp
qed


text \<open>
  C27. A stream granted after a quick Stop and restart is never released:
  once Start, Stop and Start have been pressed before the camera answered,
  and both requests are granted, stream 0 is live but neither the Stop
  button's closure, nor the effect's cleanup, nor any outstanding request or
  decode loop refers to it, so no continuation of the run stops it.
\<close>

theorem restart_stream_never_released:
  "\<exists>st. page_run env \<lparr>psrv = s, pg = page_init\<rparr>
           [StartScan, StopScan, StartScan, CameraGranted 0, CameraGranted 0] = Some st \<and>
         0 \<in> set (live (pg st)) \<and> (\<forall>es. pred_option (\<lambda>st'. 0 \<in> set (live (pg st'))) (page_run env st es))"
proof -
  define st where "st = \<lparr>psrv = s, pg = page_init\<lparr>isScanning := True, eff_scanning := True, stream := Some 1,
    next_stream := 2, live := [0, 1], loops := [None, None],
    page_toasts := []\<rparr>\<rparr>"
  have r: "page_run env \<lparr>psrv = s, pg = page_init\<rparr>
           [StartScan, StopScan, StartScan, CameraGranted 0, CameraGranted 0] = Some st"
    by (simp add: st_def scan_defs page_init_def remove_at_def)
  have o: "orphaned 0 (pg st)" by (simp add: st_def orphaned_def held_def page_init_def)
  have i: "scan_inv (pg st)" by (simp add: st_def scan_inv_def)
  have "pred_option (\<lambda>st'. 0 \<in> set (live (pg st'))) (page_run env st es)" for es
    using orphaned_forever [OF o i] .
  with r o show ?thesis by (auto intro: orphaned_live)
qed



text \<open>
  C29. The form holds at most four file slots: the file inputs are slots 0
  to 3, \<open>updatedFiles[index]\<close> extends the array only up to the slot
  written, and the reset empties it; so a submission attaches at most four
  images, the \<open>upload.array("images", 4)\<close> limit of the route.
\<close>

theorem reach_files_bound:
  assumes "page_reach env st"
  shows "length (form_files (pg st)) \<le> 4 \<and> length (attached (pg st)) \<le> 4"
  using page_reach_files [OF assms] attached_length [of "pg st"] by simp

theorem reach_files_bound_witness:
  "page_reach sample_env (the (page_run sample_env sample_psys [SetFile 0 (Some ''f1''), SetFile 3 (Some ''f4'')])) \<and>
   length (form_files (pg (the (page_run sample_env sample_psys [SetFile 0 (Some ''f1''), SetFile 3 (Some ''f4'')])))) \<le> 4 \<and>
   length (attached (pg (the (page_run sample_env sample_psys [SetFile 0 (Some ''f1''), SetFile 3 (Some ''f4'')])))) \<le> 4"
proof -
  have r: "page_run sample_env sample_psys [SetFile 0 (Some ''f1''), SetFile 3 (Some ''f4'')] =
    Some (the (page_run sample_env sample_psys [SetFile 0 (Some ''f1''), SetFile 3 (Some ''f4'')]))"
    by (simp add: sample_psys_def)
  have h: "page_reach sample_env (the (page_run sample_env sample_psys [SetFile 0 (Some ''f1''), SetFile 3 (Some ''f4'')]))"
    using page_run_reach [OF _ r] page_reach.init [of sample_env sample_server] by (simp add: sample_psys_def)
  show ?thesis using reach_files_bound [OF h] h by simp
qed





text \<open>
  C34. Leaving the page while the camera is on leaves it on for good: after
  Start and the camera's grant, unmounting runs the effect's cleanup, whose
  closure saw \<open>stream = null\<close>, so it resets the decoder but stops no
  track; the granted stream stays live in every continuation.
\<close>

theorem unmount_leaves_camera_on:
  "\<exists>st. page_run env \<lparr>psrv = s, pg = page_init\<rparr> [StartScan, CameraGranted 0, Unmount] = Some st \<and>
         \<not> mounted (pg st) \<and> 0 \<in> set (live (pg st)) \<and>
         (\<forall>es. pred_option (\<lambda>st'. 0 \<in> set (live (pg st'))) (page_run env st es))"
proof -
  define st where "st = \<lparr>psrv = s, pg = page_init\<lparr>isScanning := True, eff_scanning := True, stream := Some 0,
    next_stream := 1, live := [0], mounted := False\<rparr>\<rparr>"
  have r: "page_run env \<lparr>psrv = s, pg = page_init\<rparr> [StartScan, CameraGranted 0, Unmount] = Some st"
    by (simp add: st_def scan_defs page_init_def)
  have o: "orphaned 0 (pg st)" by (simp add: st_def orphaned_def held_def page_init_def)
  have i: "scan_inv (pg st)" by (simp add: st_def scan_inv_def page_init_def)
  from r o i orphaned_forever [OF o i] show ?thesis by (auto simp: st_def orphaned_def)
qed

text \<open>
  C35. Leaving the page before the camera answers leaks the stream it then
  grants: the callback opens the stream, \<open>videoRef.current\<close> is already
  \<open>null\<close>, so the assignment throws and the \<open>catch\<close> shows an error; the
  stream is live and nothing refers to it.
\<close>

theorem unmount_before_grant_leaks_camera:
  "\<exists>st. page_run env \<lparr>psrv = s, pg = page_init\<rparr> [StartScan, Unmount, CameraGranted 0] = Some st \<and>
         0 \<in> set (live (pg st)) \<and>
         page_toasts (pg st) = [ToastError ''Camera access denied or unavailable''] \<and>
         (\<forall>es. pred_option (\<lambda>st'. 0 \<in> set (live (pg st'))) (page_run env st es))"
proof -
  define st where "st = \<lparr>psrv = s, pg = page_init\<lparr>isScanning := True, eff_scanning := True,
    next_stream := 1, live := [0], mounted := False,
    page_toasts := [ToastError ''Camera access denied or unavailable'']\<rparr>\<rparr>"
  have r: "page_run env \<lparr>psrv = s, pg = page_init\<rparr> [StartScan, Unmount, CameraGranted 0] = Some st"
    by (simp add: st_def scan_defs page_init_def)
  have o: "orphaned 0 (pg st)" by (simp add: st_def orphaned_def held_def page_init_def)
  have i: "scan_inv (pg st)" by (simp add: st_def scan_inv_def page_init_def)
  from r o i orphaned_forever [OF o i] show ?thesis by (auto simp: st_def orphaned_def)
qed


text \<open>
  C37. A submission uploads exactly the images the form shows: in every
  reachable state the files sent with the request are the files the four
  slots preview, in slot order, skipping the slots that show the upload
  placeholder.
\<close>

theorem reach_attached_previews:
  assumes "page_reach env st"
  shows "attached (pg st) = concat (map (\<lambda>v. case v of Preview f \<Rightarrow> [f] | UploadArea \<Rightarrow> []) (previews (pg st)))"
  using page_reach_files [OF assms] by (rule attached_previews)

theorem reach_attached_previews_witness:
  "page_reach sample_env (the (page_run sample_env sample_psys [SetFile 1 (Some ''f2''), SetFile 3 (Some ''f4'')])) \<and>
   previews (pg (the (page_run sample_env sample_psys [SetFile 1 (Some ''f2''), SetFile 3 (Some ''f4'')]))) =
     [UploadArea, Preview ''f2'', UploadArea, Preview ''f4''] \<and>
   attached (pg (the (page_run sample_env sample_psys [SetFile 1 (Some ''f2''), SetFile 3 (Some ''f4'')]))) =
     [''f2'', ''f4'']"
proof -
  have r: "page_run sample_env sample_psys [SetFile 1 (Some ''f2''), SetFile 3 (Some ''f4'')] =
    Some (the (page_run sample_env sample_psys [SetFile 1 (Some ''f2''), SetFile 3 (Some ''f4'')]))"
    by (simp add: sample_psys_def)
  have h: "page_reach sample_env (the (page_run sample_env sample_psys [SetFile 1 (Some ''f2''), SetFile 3 (Some ''f4'')]))"
    using page_run_reach [OF _ r] page_reach.init [of sample_env sample_server] by (simp add: sample_psys_def)
  have p: "previews (pg (the (page_run sample_env sample_psys [SetFile 1 (Some ''f2''), SetFile 3 (Some ''f4'')]))) =
     [UploadArea, Preview ''f2'', UploadArea, Preview ''f4'']"
    by (simp add: sample_psys_def set_file_def js_assign_def page_init_def previews_def slot_preview_def
        upt_rec nth_append)
  show ?thesis using reach_attached_previews [OF h] h p by simp
qed

end
