(* ===== verification/Submission.thy ===== *)
theory Submission
  imports Scanner JsonParse
begin

text \<open>
  The Add Product form and the controller joined by the wire format: the
  form posts \<open>JSON.stringify(productData)\<close> (\<open>submit_req\<close>) and
  \<open>addProduct\<close> reads it back with \<open>JSON.parse\<close>. \<open>node_env\<close> is the
  controller's environment with the modelled \<open>JSON.parse\<close> of
  \<open>JsonParse\<close>; the image host and the schema validators stay parameters.
  \<open>submit_doc_fields\<close> describes the document a successful submit stores;
  \<open>sample_submit\<close> is a submit of the sample form that succeeds.
\<close>

definition node_env :: "(filepath \<Rightarrow> string + url) \<Rightarrow> (fields \<Rightarrow> bool) \<Rightarrow> (fields \<Rightarrow> bool) \<Rightarrow> env" where
  "node_env up vd vu = \<lparr>json_parse = json_parse_js, upload = up, valid_doc = vd, valid_update = vu\<rparr>"

definition sample_node_env :: env where
  "sample_node_env = node_env (upload sample_env) (valid_doc sample_env) (valid_update sample_env)"

definition sample_form_data :: jval where
  "sample_form_data = JObj [(''name'', JStr ''Milk''),
      (''description'', JArr [JStr ''Fresh'', JStr ''1 litre'']), (''category'', JStr []),
      (''price'', JStr ''50''), (''offerPrice'', JStr ''45''), (''quantity'', JStr ''10''),
      (''barcode'', JStr [])]"

section \<open>A submit that ends in success\<close>

lemma answer_success_respond [simp]: "answer_success (respond b m) = b"
  by (simp add: answer_success_def respond_def)

lemma answer_message_respond [simp]: "answer_message (respond b m) = m"
  by (simp add: answer_message_def respond_def)

lemma addProduct_answer_success:
  assumes "addProduct env req s = (s', r)" "answer_success r"
  shows "r = respond True ''Product Added''"
  using assms(1)
  by (cases rule: addProduct_cases) (use assms(2) in simp_all)

lemma submit_toast_success:
  assumes "page_toasts (submit_done a p) = page_toasts p @ [ToastSuccess m]"
  shows "\<exists>r. a = Inr r \<and> answer_success r"
  using assms
  by (auto simp: submit_done_def toast_page_def reset_form_def split: sum.splits if_splits)

text \<open>A delivered submit that shows a success toast went through
  \<open>productData\<close>, a successful \<open>addProduct\<close> and the reset of the form.\<close>

lemma submit_success_cases:
  assumes "page_step env st (Submit Delivered) = Some st'"
    "\<exists>m. page_toasts (pg st') = page_toasts (pg st) @ [ToastSuccess m]"
  obtains pd where "productData (pg st) = Inr pd"
    "addProduct env (submit_req pd (pg st)) (psrv st) = (psrv st', respond True ''Product Added'')"
    "pg st' = reset_form (toast_page [ToastSuccess ''Product Added''] (pg st))"
proof -
  obtain m where m: "page_toasts (pg st') = page_toasts (pg st) @ [ToastSuccess m]"
    using assms(2) by blast
  have st': "st' = onSubmit env Delivered st"
    using assms(1) by (simp split: if_splits)
  show ?thesis
  proof (cases "productData (pg st)")
    case (Inl e)
    with m st' show ?thesis by (simp add: onSubmit_def toast_page_def)
  next
    case (Inr pd)
    obtain s' r where h: "addProduct env (submit_req pd (pg st)) (psrv st) = (s', r)"
      by (cases "addProduct env (submit_req pd (pg st)) (psrv st)")
    have st'': "st' = \<lparr>psrv = s', pg = submit_done (Inr r) (pg st)\<rparr>"
      using st' Inr h by (simp add: onSubmit_def round_trip_delivered)
    then obtain r' where "Inr r = Inr r'" "answer_success r'"
      using submit_toast_success m by fastforce
    then have ok: "answer_success r" by simp
    have r: "r = respond True ''Product Added''" using h ok by (rule addProduct_answer_success)
    show ?thesis using that [OF Inr] h r st'' ok by (simp add: submit_done_def)
  qed
qed

section \<open>The payload on the wire\<close>

lemma productData_Inr:
  "productData p = Inr pd \<Longrightarrow> \<exists>d. form_description p = JStr d \<and>
     pd = JObj [(''name'', form_name p), (''description'', JArr (map JStr (js_split (CHR 0x0A) d))),
                (''category'', form_category p), (''price'', form_price p),
                (''offerPrice'', form_offerPrice p), (''quantity'', form_quantity p),
                (''barcode'', form_barcode p)]"
  by (auto simp: productData_def split: jval.splits)

lemma submit_payload_parse:
  "json_parse_js (jget (body (submit_req pd p)) ''productData'') = Inr (norm pd)"
  by (simp add: submit_req_def json_parse_js_def parse_input_def json_parse_stringify)

lemma norm_productData:
  assumes "productData p = Inr pd"
  shows "\<exists>d. form_description p = JStr d \<and>
     norm pd = JObj [(''name'', norm (form_name p)), (''description'', JArr (map JStr (js_split (CHR 0x0A) d))),
                (''category'', norm (form_category p)), (''price'', norm (form_price p)),
                (''offerPrice'', norm (form_offerPrice p)), (''quantity'', norm (form_quantity p)),
                (''barcode'', norm (form_barcode p))]"
  using productData_Inr [OF assms] by (auto simp: comp_def)

text \<open>What a successful submit stored: the form's fields as the parse of
  the payload left them, and one image URL per attached file.\<close>

lemma submit_doc_fields:
  assumes "page_step (node_env up vd vu) st (Submit Delivered) = Some st'"
    "\<exists>m. page_toasts (pg st') = page_toasts (pg st) @ [ToastSuccess m]"
  shows "\<exists>i d desc. docs (db (psrv st')) = docs (db (psrv st)) @ [(i, d)] \<and>
           form_description (pg st) = JStr desc \<and>
           jget d ''description'' = Some (JArr (map JStr (js_split (CHR 0x0A) desc))) \<and>
           jget d ''name'' = Some (norm (form_name (pg st))) \<and>
           jget d ''category'' = Some (norm (form_category (pg st))) \<and>
           jget d ''price'' = Some (norm (form_price (pg st))) \<and>
           jget d ''offerPrice'' = Some (norm (form_offerPrice (pg st))) \<and>
           jget d ''quantity'' = Some (norm (form_quantity (pg st))) \<and>
           jget d ''barcode'' = Some (norm (form_barcode (pg st))) \<and>
           (\<exists>urls. length urls = length (attached (pg st)) \<and> jget d ''image'' = Some (image_val urls))"
proof -
  obtain pd where pd: "productData (pg st) = Inr pd"
    and a: "addProduct (node_env up vd vu) (submit_req pd (pg st)) (psrv st) = (psrv st', respond True ''Product Added'')"
    using assms by (rule submit_success_cases)
  obtain desc where desc: "form_description (pg st) = JStr desc"
    and n: "norm pd = JObj [(''name'', norm (form_name (pg st))),
                (''description'', JArr (map JStr (js_split (CHR 0x0A) desc))),
                (''category'', norm (form_category (pg st))), (''price'', norm (form_price (pg st))),
                (''offerPrice'', norm (form_offerPrice (pg st))), (''quantity'', norm (form_quantity (pg st))),
                (''barcode'', norm (form_barcode (pg st)))]"
    using norm_productData [OF pd] by blast
  have "json_parse (node_env up vd vu) (jget (body (submit_req pd (pg st))) ''productData'') = Inr (norm pd)"
    using submit_payload_parse by (simp add: node_env_def)
  from addProduct_stored_fields [OF a this [unfolded n]]
  obtain i d where dd: "docs (db (psrv st')) = docs (db (psrv st)) @ [(i, d)]"
    and f: "\<forall>k\<in>set product_paths. k \<noteq> ''image'' \<longrightarrow>
      jget d k = jget (jmerge [] [(''name'', norm (form_name (pg st))),
                (''description'', JArr (map JStr (js_split (CHR 0x0A) desc))),
                (''category'', norm (form_category (pg st))), (''price'', norm (form_price (pg st))),
                (''offerPrice'', norm (form_offerPrice (pg st))), (''quantity'', norm (form_quantity (pg st))),
                (''barcode'', norm (form_barcode (pg st)))]) k"
    by blast
  moreover note desc
  moreover from f have "jget d ''description'' = Some (JArr (map JStr (js_split (CHR 0x0A) desc)))"
    "jget d ''name'' = Some (norm (form_name (pg st)))"
    "jget d ''category'' = Some (norm (form_category (pg st)))"
    "jget d ''price'' = Some (norm (form_price (pg st)))"
    "jget d ''offerPrice'' = Some (norm (form_offerPrice (pg st)))"
    "jget d ''quantity'' = Some (norm (form_quantity (pg st)))"
    "jget d ''barcode'' = Some (norm (form_barcode (pg st)))"
    by (simp_all add: product_paths_def jmerge_def)
  moreover have "\<exists>urls. length urls = length (attached (pg st)) \<and> jget d ''image'' = Some (image_val urls)"
  proof -
    have "files (submit_req pd (pg st)) = Some (attached (pg st))" by (simp add: submit_req_def)
    from addProduct_success_shape [OF a this] dd show ?thesis by auto
  qed
  ultimately show ?thesis by blast
qed

text \<open>The sample form submitted over a delivered request: the controller
  adds the product and the page shows its message.\<close>

lemma sample_submit:
  "page_step sample_node_env \<lparr>psrv = sample_server, pg = sample_filled\<rparr> (Submit Delivered) =
     Some (onSubmit sample_node_env Delivered \<lparr>psrv = sample_server, pg = sample_filled\<rparr>) \<and>
   page_toasts (pg (onSubmit sample_node_env Delivered \<lparr>psrv = sample_server, pg = sample_filled\<rparr>)) =
     page_toasts sample_filled @ [ToastSuccess ''Product Added'']"
proof -
  define st0 where "st0 = \<lparr>psrv = sample_server, pg = sample_filled\<rparr>"
  define st' where "st' = onSubmit sample_node_env Delivered st0"
  have a: "page_step sample_node_env st0 (Submit Delivered) = Some st'"
    by (simp add: st'_def st0_def form_valid_def sample_filled_def)
  have pd: "productData sample_filled = Inr sample_form_data"
    by (simp add: productData_def sample_filled_def page_init_def sample_form_data_def)
  have b1: "st' = \<lparr>psrv = fst (addProduct sample_node_env (submit_req sample_form_data sample_filled) sample_server),
                   pg = submit_done (Inr (snd (addProduct sample_node_env (submit_req sample_form_data sample_filled)
                          sample_server))) sample_filled\<rparr>"
    using pd by (simp add: st'_def st0_def onSubmit_def round_trip_delivered split: prod.split)
  have j: "json_parse_js (jget (body (submit_req sample_form_data sample_filled)) ''productData'') =
      Inr sample_form_data"
    using submit_payload_parse [of sample_form_data sample_filled] by (simp add: sample_form_data_def)
  have f: "files (submit_req sample_form_data sample_filled) = Some [''f1'']"
    by (simp add: submit_req_def attached_def sample_filled_def)
  have b2: "snd (addProduct sample_node_env (submit_req sample_form_data sample_filled) sample_server) =
      respond True ''Product Added''"
    apply (simp add: j f sample_node_env_def node_env_def sample_defs handler_defs Let_def)
    apply (simp add: sample_form_data_def sample_defs eval_defs)
    done
  have b: "page_toasts (pg st') = page_toasts (pg st0) @ [ToastSuccess ''Product Added'']"
    using b1 b2 by (simp add: submit_done_def reset_form_def toast_page_def st0_def)
  with a show ?thesis by (simp add: st'_def st0_def)
qed

section \<open>Properties\<close>

text \<open>
  C24. Round trip of the Add Product payload: whatever the form holds,
  \<open>JSON.parse\<close> of the \<open>productData\<close> field the form posts gives the
  \<open>productData\<close> object back, with any object among the field values
  normalised as \<open>JSON.parse\<close> builds objects.
\<close>

theorem submit_payload_roundtrip:
  assumes "productData p = Inr pd"
  shows "\<exists>d. form_description p = JStr d \<and>
     json_parse_js (jget (body (submit_req pd p)) ''productData'') =
       Inr (JObj [(''name'', norm (form_name p)), (''description'', JArr (map JStr (js_split (CHR 0x0A) d))),
                  (''category'', norm (form_category p)), (''price'', norm (form_price p)),
                  (''offerPrice'', norm (form_offerPrice p)), (''quantity'', norm (form_quantity p)),
                  (''barcode'', norm (form_barcode p))])"
  using norm_productData [OF assms] submit_payload_parse [of pd p] by auto

theorem submit_payload_roundtrip_witness:
  "productData sample_filled = Inr sample_form_data \<and>
   json_parse_js (jget (body (submit_req sample_form_data sample_filled)) ''productData'') =
     Inr sample_form_data"
proof -
  have h: "productData sample_filled = Inr sample_form_data"
    by (simp add: productData_def sample_filled_def page_init_def sample_form_data_def)
  show ?thesis using submit_payload_roundtrip [OF h] h
    by (auto simp: sample_filled_def page_init_def sample_form_data_def)
qed


text \<open>
  C26. End to end, every field of the form reaches the database: with the
  modelled \<open>JSON.parse\<close>, a delivered submit that ends in a success toast
  stored one new document whose name, category, prices, quantity and
  barcode are the form's values (objects normalised) and whose description
  is the typed text split at newlines.
\<close>

theorem submit_stores_form_fields:
  assumes "page_step (node_env up vd vu) st (Submit Delivered) = Some st'"
    "\<exists>m. page_toasts (pg st') = page_toasts (pg st) @ [ToastSuccess m]"
  shows "\<exists>i d desc. docs (db (psrv st')) = docs (db (psrv st)) @ [(i, d)] \<and>
           form_description (pg st) = JStr desc \<and>
           jget d ''description'' = Some (JArr (map JStr (js_split (CHR 0x0A) desc))) \<and>
           jget d ''name'' = Some (norm (form_name (pg st))) \<and>
           jget d ''category'' = Some (norm (form_category (pg st))) \<and>
           jget d ''price'' = Some (norm (form_price (pg st))) \<and>
           jget d ''offerPrice'' = Some (norm (form_offerPrice (pg st))) \<and>
           jget d ''quantity'' = Some (norm (form_quantity (pg st))) \<and>
           jget d ''barcode'' = Some (norm (form_barcode (pg st)))"
  using submit_doc_fields [OF assms] by blast

theorem submit_stores_form_fields_witness:
  "\<exists>st'. page_step sample_node_env \<lparr>psrv = sample_server, pg = sample_filled\<rparr> (Submit Delivered) = Some st' \<and>
     (\<exists>m. page_toasts (pg st') = page_toasts sample_filled @ [ToastSuccess m]) \<and>
     (\<exists>i d desc. docs (db (psrv st')) = docs (db sample_server) @ [(i, d)] \<and>
           form_description sample_filled = JStr desc \<and>
           jget d ''description'' = Some (JArr (map JStr (js_split (CHR 0x0A) desc))) \<and>
           jget d ''name'' = Some (norm (form_name sample_filled)) \<and>
           jget d ''category'' = Some (norm (form_category sample_filled)) \<and>
           jget d ''price'' = Some (norm (form_price sample_filled)) \<and>
           jget d ''offerPrice'' = Some (norm (form_offerPrice sample_filled)) \<and>
           jget d ''quantity'' = Some (norm (form_quantity sample_filled)) \<and>
           jget d ''barcode'' = Some (norm (form_barcode sample_filled)))"
proof -
  define st' where "st' = onSubmit sample_node_env Delivered \<lparr>psrv = sample_server, pg = sample_filled\<rparr>"
  from sample_submit have a: "page_step sample_node_env \<lparr>psrv = sample_server, pg = sample_filled\<rparr> (Submit Delivered) =
      Some st'" by (simp add: st'_def)
  have b: "\<exists>m. page_toasts (pg st') = page_toasts (pg \<lparr>psrv = sample_server, pg = sample_filled\<rparr>) @ [ToastSuccess m]"
    using sample_submit by (simp add: st'_def)
  from submit_stores_form_fields [OF a [unfolded sample_node_env_def] b] a b
  show ?thesis by (auto simp: sample_node_env_def)
qed

end
