(* ===== verification/ConcurrentEdits.thy ===== *)
theory ConcurrentEdits
  imports ProductListView
begin

text \<open>
  Two sellers working on one product catalogue: two sessions of the product
  list view of \<open>src/client/src/pages/seller/ProductList.jsx\<close>, each with its
  own component state, sending their requests to one shared server. A step
  of the system is one event of one session (\<open>view_step\<close>), all other
  state of the other session left as it was, in any interleaving. The
  controller keeps no state between requests besides the database
  (spec section 5), and the view sends no version with its edits, so the
  composition shows what the spec calls last write wins (section 4.3): a
  save from a stale edit modal overwrites an earlier acknowledged save.
\<close>

section \<open>Two sessions on one server\<close>

datatype seller = SellerA | SellerB

record sys2 =
  shared :: server
  tab_a :: view
  tab_b :: view

definition tab :: "sys2 \<Rightarrow> seller \<Rightarrow> view" where
  "tab st w = (case w of SellerA \<Rightarrow> tab_a st | SellerB \<Rightarrow> tab_b st)"

definition set_tab :: "seller \<Rightarrow> view \<Rightarrow> sys2 \<Rightarrow> sys2" where
  "set_tab w v st = (case w of SellerA \<Rightarrow> st\<lparr>tab_a := v\<rparr> | SellerB \<Rightarrow> st\<lparr>tab_b := v\<rparr>)"

text \<open>One event of session \<open>w\<close>: the session's view runs against the
  shared server, which keeps what the handler left.\<close>

definition step2 :: "env \<Rightarrow> delivery \<Rightarrow> sys2 \<Rightarrow> seller \<Rightarrow> ui_event \<Rightarrow> sys2 option" where
  "step2 env dl st w e =
     map_option (\<lambda>st'. set_tab w (ui st') (st\<lparr>shared := srv st'\<rparr>))
       (view_step env dl \<lparr>srv = shared st, ui = tab st w\<rparr> e)"

inductive reach2 :: "env \<Rightarrow> sys2 \<Rightarrow> bool" for env where
  init: "reach2 env \<lparr>shared = s, tab_a = view_init, tab_b = view_init\<rparr>"
| step: "reach2 env st \<Longrightarrow> step2 env dl st w e = Some st' \<Longrightarrow> reach2 env st'"

text \<open>The edit data of a session has one entry per key.\<close>

definition edit_distinct :: "view \<Rightarrow> bool" where
  "edit_distinct v = distinct (keys (editData v))"

text \<open>Sample run for the witnesses: both sessions load the sample server's
  table and open the edit modal on its first row; seller A renames the
  product. Then A saves, and B saves its unchanged modal.\<close>

definition two_editing :: sys2 where
  "two_editing =
     \<lparr>shared = sample_server,
      tab_a = (ui sample_editing)\<lparr>editData := jput ''name'' (JStr ''Oat Milk'') (editData (ui sample_editing))\<rparr>,
      tab_b = ui sample_editing\<rparr>"

definition two_saved_a :: sys2 where
  "two_saved_a = the (step2 sample_env Delivered two_editing SellerA SaveEdit)"

definition two_saved_b :: sys2 where
  "two_saved_b = the (step2 sample_env Delivered two_saved_a SellerB SaveEdit)"

section \<open>Lemmas\<close>

lemma tab_set_tab [simp]: "tab (set_tab w v st) w' = (if w' = w then v else tab st w')"
  by (cases w; cases w') (simp_all add: tab_def set_tab_def)

lemma shared_set_tab [simp]: "shared (set_tab w v st) = shared st"
  by (cases w) (simp_all add: set_tab_def)

lemma tab_shared_update [simp]: "tab (st\<lparr>shared := s\<rparr>) w = tab st w"
  by (cases w) (simp_all add: tab_def)

lemma step2_SomeE:
  assumes "step2 env dl st w e = Some st2"
  obtains st' where "view_step env dl \<lparr>srv = shared st, ui = tab st w\<rparr> e = Some st'"
    "shared st2 = srv st'" "tab st2 w = ui st'" "\<And>w'. w' \<noteq> w \<Longrightarrow> tab st2 w' = tab st w'"
  using assms by (auto simp: step2_def)

lemma distinct_keys_snapshot: "distinct (keys (snapshot p))"
  by (simp add: snapshot_def opt_field_def keys_def split: option.splits)

lemma view_step_edit_distinct:
  assumes "edit_distinct (ui st)" "view_step env dl st e = Some st'"
  shows "edit_distinct (ui st')"
proof (cases e)
  case (ToggleRow n)
  with assms show ?thesis
    by (auto simp: edit_distinct_def toggleStock_def after_answer_fields Let_def split: if_splits prod.splits)
next
  case (DeleteRow n)
  with assms show ?thesis
    by (auto simp: edit_distinct_def deleteProductView_def after_answer_fields Let_def split: if_splits prod.splits)
next
  case (EditRow n)
  with assms show ?thesis
    by (auto simp: edit_distinct_def editRow_def distinct_keys_snapshot split: if_splits)
next
  case SaveEdit
  with assms show ?thesis using updateProductView_fields [of env dl st]
    by (auto simp: edit_distinct_def split: if_splits)
qed (use assms in \<open>auto simp: edit_distinct_def split: if_splits\<close>)

lemma reach2_inv: "reach2 env st \<Longrightarrow> view_inv (tab st w) \<and> edit_distinct (tab st w)"
proof (induction arbitrary: w rule: reach2.induct)
  case (init s)
  have "edit_distinct view_init" by (simp add: edit_distinct_def view_init_def keys_def)
  then show ?case by (cases w) (simp_all add: tab_def view_inv_init)
next
  case (step st dl w0 e st')
  then obtain st1 where v: "view_step env dl \<lparr>srv = shared st, ui = tab st w0\<rparr> e = Some st1"
    and t: "tab st' w0 = ui st1" "\<And>w'. w' \<noteq> w0 \<Longrightarrow> tab st' w' = tab st w'"
    by (blast elim: step2_SomeE)
  have "view_inv (ui st1) \<and> edit_distinct (ui st1)"
    using step.IH [of w0] view_step_inv [OF _ v] view_step_edit_distinct [OF _ v] by simp
  with step.IH [of w] t show ?case by (cases "w = w0") simp_all
qed

text \<open>What an acknowledged \<open>updateProduct\<close> of a raw JSON body without
  files did: the path id cast to an ObjectId naming a stored document, and
  the document now has the body's schema fields merged in.\<close>

lemma update_found_cast:
  "find_by_id_and_update rv valid idv upd st = Inr (Some (i, d'), st') \<Longrightarrow> cast_id idv = Inr (Some i)"
  by (auto simp: find_by_id_and_update_def Let_def split: sum.splits option.splits jval.splits if_splits)

lemma resp_success_respond [simp]: "resp_success (respond b m) = b"
  by (simp add: resp_success_def resp_fields_def respond_def jget_def)

lemma updateProduct_body_success:
  assumes "updateProduct env req s = (s', r)" "resp_success r" "files req = None"
    "jget (body req) ''productData'' = None"
  shows "\<exists>i d. cast_id (param_id req) = Inr (Some i) \<and> store_map (db s) i = Some d \<and>
           store_map (db s') = (store_map (db s))(i \<mapsto> jmerge d (schema_filter (body req)))"
  using assms(1)
proof (cases rule: updateProduct_cases)
  case (updated pd urls s1 pd' p st')
  obtain i d' where p: "p = (i, d')" by (cases p)
  from assms(4) updated(1) have pd: "pd = JObj (body req)" by (simp add: update_data_def)
  from assms(3) updated(2) have s1: "urls = []" "s1 = s" by (simp_all add: update_uploads_def)
  with updated(3) pd have pd': "pd' = JObj (body req)" by simp
  from updated(4) have f: "find_by_id_and_update True (valid_update env) (param_id req) (JObj (body req)) (db s) =
      Inr (Some (i, d'), st')" by (simp add: p pd' s1)
  from update_found [OF f] obtain d where "map_of (docs (db s)) i = Some d" "d' = jmerge d (schema_filter (body req))"
    by blast
  moreover from update_store_map [OF f] have "store_map st' = (store_map (db s))(i \<mapsto> d')"
    by (auto simp: store_map_def)
  ultimately show ?thesis using update_found_cast [OF f] updated(5) s1
    by (auto simp: store_map_def)
qed (use assms(2) in simp_all)

lemma jget_jmerge_schema_distinct:
  assumes "distinct (keys u)" "k \<in> set product_paths" "k \<in> set (keys u)"
  shows "jget (jmerge d (schema_filter u)) k = jget u k"
proof -
  from assms(3) obtain v where v: "(k, v) \<in> set u" by (auto simp: keys_def)
  have du: "distinct (map fst (rev (schema_filter u)))"
    using assms(1) distinct_map_filter [of fst u "\<lambda>(k, v). k \<in> set product_paths"]
    by (simp add: keys_def schema_filter_def rev_map [symmetric])
  have "(k, v) \<in> set (rev (schema_filter u))" using v assms(2) by (simp add: schema_filter_def)
  then have "map_of (rev (schema_filter u)) k = Some v" using du by simp
  moreover have "jget u k = Some v" using assms(1) v by (simp add: jget_def keys_def)
  ultimately show ?thesis by (simp add: jget_jmerge)
qed

lemma edit_keys_schema: "edit_keys \<subseteq> set product_paths"
  by (simp add: edit_keys_def product_paths_def)

text \<open>An acknowledged save of the edit modal: the request went to the
  selected product's id, and that document now holds the modal's fields.\<close>

lemma save_success_store:
  assumes "view_step env Delivered st SaveEdit = Some st'"
    "toasts (ui st') = toasts (ui st) @ [ToastSuccess m]" "view_inv (ui st)"
  shows "\<exists>p i d. selectedProduct (ui st) = Some p \<and>
           cast_id (Some (JStr (id_segment (jget (resp_fields p) ''_id'')))) = Inr (Some i) \<and>
           store_map (db (srv st)) i = Some d \<and>
           store_map (db (srv st')) = (store_map (db (srv st)))(i \<mapsto> jmerge d (schema_filter (editData (ui st))))"
proof -
  from assms(1) have ed: "isEditing (ui st)" and st': "st' = updateProductView env Delivered st"
    by (auto split: if_splits)
  from assms(3) ed obtain p where p: "selectedProduct (ui st) = Some p" by (auto simp: view_inv_def)
  let ?req = "edit_req p (editData (ui st))"
  obtain s' r where h: "updateProduct env ?req (srv st) = (s', r)" by (cases "updateProduct env ?req (srv st)")
  have out: "st' = (if resp_success r
      then \<lparr>srv = s', ui = (fetch_products env s' ((ui st)\<lparr>toasts := toasts (ui st) @
              [ToastSuccess ''Product updated successfully!'']\<rparr>))\<lparr>isEditing := False\<rparr>\<rparr>
      else \<lparr>srv = s', ui = (ui st)\<lparr>toasts := toasts (ui st) @ [ToastError (resp_message r)]\<rparr>\<rparr>)"
    using h by (simp add: st' updateProductView_def p round_trip_delivered Let_def del: fetch_products_sync)
  have ok: "resp_success r" using assms(2) out by (auto split: if_splits)
  then have srv': "srv st' = s'" using out by simp
  have "''productData'' \<notin> set (keys (editData (ui st)))" using assms(3) by (auto simp: view_inv_def edit_keys_def)
  then have pd: "jget (body ?req) ''productData'' = None"
    by (simp add: edit_req_def jget_def keys_def map_of_eq_None_iff)
  show ?thesis
    using updateProduct_body_success [OF h ok _ pd] p srv' by (simp add: edit_req_def param_id_def)
qed

lemma reach2_two_editing: "reach2 sample_env two_editing"
proof -
  let ?s0 = "\<lparr>shared = sample_server, tab_a = view_init, tab_b = view_init\<rparr>"
  let ?s1 = "?s0\<lparr>tab_a := ui sample_loaded\<rparr>"
  let ?s2 = "?s1\<lparr>tab_b := ui sample_loaded\<rparr>"
  let ?s3 = "?s2\<lparr>tab_a := ui sample_editing\<rparr>"
  let ?s4 = "?s3\<lparr>tab_b := ui sample_editing\<rparr>"
  have r0: "reach2 sample_env ?s0" by (rule reach2.init)
  have r1: "reach2 sample_env ?s1"
    by (rule reach2.step [OF r0, of Delivered SellerA Fetch])
       (simp add: step2_def tab_def set_tab_def sample_loaded_def)
  have r2: "reach2 sample_env ?s2"
    by (rule reach2.step [OF r1, of Delivered SellerB Fetch])
       (simp add: step2_def tab_def set_tab_def sample_loaded_def)
  have r3: "reach2 sample_env ?s3"
    by (rule reach2.step [OF r2, of Delivered SellerA "EditRow 0"])
       (simp add: step2_def tab_def set_tab_def sample_editing_def sample_loaded_def sample_server_def)
  have r4: "reach2 sample_env ?s4"
    by (rule reach2.step [OF r3, of Delivered SellerB "EditRow 0"])
       (simp add: step2_def tab_def set_tab_def sample_editing_def sample_loaded_def sample_server_def)
  show ?thesis
    by (rule reach2.step [OF r4, of Delivered SellerA "EditField ''name'' ''Oat Milk''"])
       (simp add: step2_def tab_def set_tab_def two_editing_def sample_editing_def editRow_def)
qed

section \<open>Properties of the composition\<close>

text \<open>
  C38. Concurrent edits: last write wins. In any reachable state of two
  sessions on one server, let seller A's save of the edit modal be
  delivered and acknowledged with a success toast, and then seller B's save
  of a modal opened on the same product. A's acknowledged save had stored
  A's modal fields in the document, and after B's save the same document
  holds B's modal fields, whatever A wrote: the view sends no version and
  the controller checks none, so a stale modal silently reverts an
  acknowledged edit.
\<close>

theorem concurrent_saves_last_write_wins:
  assumes "reach2 env st"
    "step2 env Delivered st SellerA SaveEdit = Some st1"
    "toasts (tab st1 SellerA) = toasts (tab st SellerA) @ [ToastSuccess mA]"
    "step2 env Delivered st1 SellerB SaveEdit = Some st2"
    "toasts (tab st2 SellerB) = toasts (tab st1 SellerB) @ [ToastSuccess mB]"
    "map_option (\<lambda>p. jget (resp_fields p) ''_id'') (selectedProduct (tab st SellerA)) =
     map_option (\<lambda>p. jget (resp_fields p) ''_id'') (selectedProduct (tab st SellerB))"
  shows "\<exists>i dA dB. store_map (db (shared st1)) i = Some dA \<and> store_map (db (shared st2)) i = Some dB \<and>
           (\<forall>k\<in>set (keys (editData (tab st SellerA))). jget dA k = jget (editData (tab st SellerA)) k) \<and>
           (\<forall>k\<in>set (keys (editData (tab st SellerB))). jget dB k = jget (editData (tab st SellerB)) k)"
proof -
  have ia: "view_inv (tab st SellerA) \<and> edit_distinct (tab st SellerA)" using reach2_inv [OF assms(1)] .
  from assms(2) obtain sa where va: "view_step env Delivered \<lparr>srv = shared st, ui = tab st SellerA\<rparr> SaveEdit = Some sa"
    and sa: "shared st1 = srv sa" "tab st1 SellerA = ui sa" "tab st1 SellerB = tab st SellerB"
    by (rule step2_SomeE) auto
  from save_success_store [OF va] ia assms(3) sa obtain pA iA dA0 where
    pA: "selectedProduct (tab st SellerA) = Some pA"
      "cast_id (Some (JStr (id_segment (jget (resp_fields pA) ''_id'')))) = Inr (Some iA)"
      "store_map (db (shared st1)) = (store_map (db (shared st)))(iA \<mapsto> jmerge dA0 (schema_filter (editData (tab st SellerA))))"
    by auto
  have r1: "reach2 env st1" using assms(1,2) by (rule reach2.step)
  have ib: "view_inv (tab st SellerB) \<and> edit_distinct (tab st SellerB)"
    using reach2_inv [OF r1, of SellerB] sa(3) by simp
  from assms(4) obtain sb where vb: "view_step env Delivered \<lparr>srv = shared st1, ui = tab st1 SellerB\<rparr> SaveEdit = Some sb"
    and sb: "shared st2 = srv sb" "tab st2 SellerB = ui sb"
    by (rule step2_SomeE) auto
  from save_success_store [OF vb] ib assms(5) sa(3) sb obtain pB iB dB0 where
    pB: "selectedProduct (tab st SellerB) = Some pB"
      "cast_id (Some (JStr (id_segment (jget (resp_fields pB) ''_id'')))) = Inr (Some iB)"
      "store_map (db (shared st2)) = (store_map (db (shared st1)))(iB \<mapsto> jmerge dB0 (schema_filter (editData (tab st SellerB))))"
    by auto
  from assms(6) pA(1) pB(1) have "jget (resp_fields pA) ''_id'' = jget (resp_fields pB) ''_id''" by simp
  with pA(2) pB(2) have i: "iB = iA" by simp
  have kA: "\<forall>k\<in>set (keys (editData (tab st SellerA))).
      jget (jmerge dA0 (schema_filter (editData (tab st SellerA)))) k = jget (editData (tab st SellerA)) k"
    using ia edit_keys_schema by (auto simp: view_inv_def edit_distinct_def intro!: jget_jmerge_schema_distinct)
  have kB: "\<forall>k\<in>set (keys (editData (tab st SellerB))).
      jget (jmerge dB0 (schema_filter (editData (tab st SellerB)))) k = jget (editData (tab st SellerB)) k"
    using ib edit_keys_schema by (auto simp: view_inv_def edit_distinct_def intro!: jget_jmerge_schema_distinct)
  show ?thesis using pA(3) pB(3) i kA kB by auto
qed

theorem concurrent_saves_last_write_wins_witness:
  "reach2 sample_env two_editing \<and>
   step2 sample_env Delivered two_editing SellerA SaveEdit = Some two_saved_a \<and>
   toasts (tab two_saved_a SellerA) = toasts (tab two_editing SellerA) @ [ToastSuccess ''Product updated successfully!''] \<and>
   step2 sample_env Delivered two_saved_a SellerB SaveEdit = Some two_saved_b \<and>
   toasts (tab two_saved_b SellerB) = toasts (tab two_saved_a SellerB) @ [ToastSuccess ''Product updated successfully!''] \<and>
   (\<exists>i dA dB. store_map (db (shared two_saved_a)) i = Some dA \<and> store_map (db (shared two_saved_b)) i = Some dB \<and>
      jget dA ''name'' = Some (JStr ''Oat Milk'') \<and> jget dB ''name'' = Some (JStr ''Milk''))"
proof -
  have a: "step2 sample_env Delivered two_editing SellerA SaveEdit = Some two_saved_a \<and>
     toasts (tab two_saved_a SellerA) = toasts (tab two_editing SellerA) @ [ToastSuccess ''Product updated successfully!'']"
    by (simp add: two_saved_a_def two_editing_def step2_def tab_def set_tab_def sample_editing_def sample_loaded_def
      editRow_def snapshot_def opt_field_def updateProductView_def edit_req_def round_trip_delivered sample_defs eval_defs
      resp_success_def resp_fields_def resp_message_def view_init_def Let_def)
  have b: "step2 sample_env Delivered two_saved_a SellerB SaveEdit = Some two_saved_b \<and>
     toasts (tab two_saved_b SellerB) = toasts (tab two_saved_a SellerB) @ [ToastSuccess ''Product updated successfully!'']"
    by (simp add: two_saved_b_def two_saved_a_def two_editing_def step2_def tab_def set_tab_def sample_editing_def sample_loaded_def
      editRow_def snapshot_def opt_field_def updateProductView_def edit_req_def round_trip_delivered sample_defs eval_defs
      resp_success_def resp_fields_def resp_message_def view_init_def Let_def)
  have ids: "map_option (\<lambda>p. jget (resp_fields p) ''_id'') (selectedProduct (tab two_editing SellerA)) =
     map_option (\<lambda>p. jget (resp_fields p) ''_id'') (selectedProduct (tab two_editing SellerB))"
    by (simp add: two_editing_def tab_def)
  have ea: "editData (tab two_editing SellerA) = [(''name'', JStr ''Oat Milk'')]"
    by (simp add: two_editing_def tab_def sample_editing_def sample_loaded_def editRow_def snapshot_def
      opt_field_def sample_server_def doc_json_def resp_fields_def)
  have eb: "editData (tab two_editing SellerB) = [(''name'', JStr ''Milk'')]"
    by (simp add: two_editing_def tab_def sample_editing_def sample_loaded_def editRow_def snapshot_def
      opt_field_def sample_server_def doc_json_def resp_fields_def)
  have "tab two_saved_a SellerB = tab two_editing SellerB"
    by (rule step2_SomeE [OF conjunct1 [OF a]]) simp
  then have b': "toasts (tab two_saved_b SellerB) = toasts (tab two_saved_a SellerB) @ [ToastSuccess ''Product updated successfully!'']"
    using b by simp
  from concurrent_saves_last_write_wins [OF reach2_two_editing conjunct1 [OF a] conjunct2 [OF a] conjunct1 [OF b] b' ids]
  obtain i dA dB where "store_map (db (shared two_saved_a)) i = Some dA" "store_map (db (shared two_saved_b)) i = Some dB"
    "jget dA ''name'' = Some (JStr ''Oat Milk'')" "jget dB ''name'' = Some (JStr ''Milk'')"
    by (auto simp: ea eb keys_def)
  then show ?thesis using reach2_two_editing a b by blast
qed

end
