(* ===== verification/Spec2Isabelle.thy ===== *)
theory Spec2Isabelle
  imports ProductTable Submission ConcurrentEdits
begin

text \<open>
  \<^bold>\<open>A verification library for the Grocery-Store product back office.\<close>

  The program has three parts under \<^verbatim>\<open>src/\<close>:
  \<^item> \<^verbatim>\<open>server/controllers/productController.js\<close>, the Express handlers
    \<open>addProduct\<close>, \<open>productList\<close>, \<open>productById\<close>, \<open>changeStock\<close>,
    \<open>deleteProduct\<close> and \<open>updateProduct\<close>. They call Cloudinary to upload
    images and the Mongoose model \<open>Product\<close> to store documents;
  \<^item> \<^verbatim>\<open>client/src/pages/seller/ProductList.jsx\<close>, the seller's product table
    with the stock switch, delete and edit modal, which posts to the handlers
    and refetches the list;
  \<^item> \<^verbatim>\<open>client/src/pages/seller/AddProduct.jsx\<close>, the entry form with a camera
    barcode scanner (ZXing), a lookup in the Open Food Facts database, a
    confirm dialog, and a submit that posts to \<open>addProduct\<close>.

  \<^bold>\<open>Theories.\<close>
  \<^item> \<open>Prelude\<close>: JSON values \<open>jval\<close>, JS objects as insertion-ordered field
    lists where the last write of a key wins (\<open>jput\<close>, \<open>jmerge\<close>), object
    spread and property assignment with their \<open>TypeError\<close>s, toasts,
    \<open>String.split\<close> and \<open>join\<close>, and sparse array assignment.
  \<^item> \<open>Store\<close>: the Mongoose model, modelled from its documented behaviour
    since it is a library outside \<^verbatim>\<open>src/\<close>. A \<open>store\<close> is a list of
    documents plus an id counter. ObjectIds are 24 hex digits
    (\<open>hex_pad 24 n\<close>) and are cast as Mongoose does. The schema is strict,
    updates are \<open>$set\<close> merges, and validators are parameters. Operations
    are \<open>create\<close>, \<open>find_all\<close>, \<open>find_by_id\<close>, \<open>find_by_id_and_update\<close>
    and \<open>find_by_id_and_delete\<close>. The invariant \<open>store_inv\<close> says ids are
    distinct, canonical and below the counter, and keys are distinct
    schema paths. The lemmas show each operation keeps the invariant and
    refines the abstract map \<open>store_map\<close>.
  \<^item> \<open>Controller\<close>: the six handlers, one definition each, as functions
    \<open>env \<Rightarrow> request \<Rightarrow> server \<Rightarrow> server \<times> jval\<close>. A thrown error is
    the \<open>Inl\<close> of a sum and is answered as \<open>{success: false, message}\<close>. The
    \<open>env\<close> record holds the collaborators: \<open>JSON.parse\<close> of the form
    field, the Cloudinary upload, and the schema validators. The
    \<open>Promise.all\<close> of the uploads rejects on the first failure, but the
    uploads already done stay hosted (\<open>promise_all\<close>, \<open>fulfilled\<close>).
    \<open>handle\<close> dispatches the routes. \<open>round_trip\<close> is the network seen by
    axios: the answer is delivered, the request is lost, or the answer is
    lost after the handler ran.
  \<^item> \<open>ProductListView\<close>: the table's React state as a record \<open>view\<close>. Each
    rendered control is an event of \<open>view_step\<close>, and an event is only
    enabled while its control is rendered. The system \<open>sys\<close> pairs the
    server with the view. The reachable states are the inductive \<open>reach\<close>,
    with the invariant \<open>view_inv\<close> proved by rule induction.
  \<^item> \<open>ProductTable\<close>: the rendering of the product table (ProductList.jsx,
    lines 72--160) as \<open>render_table\<close>. It keys each row by \<open>_id\<close> and reads
    \<open>product.image[0]\<close> (\<open>index0\<close>, which throws on \<open>null\<close> and
    \<open>undefined\<close>). Its text cells follow React's rules for children
    (\<open>react_child\<close>, which throws on an object). A thrown error is an
    \<open>Inl\<close>. \<open>view_run\<close> runs the list view over a sequence of events.
  \<^item> \<open>Json\<close>: \<open>JSON.stringify\<close> of the form data.
  \<^item> \<open>JsonParse\<close>: \<open>JSON.parse\<close> as a recursive-descent parser over
    strings (\<open>pv\<close>, \<open>parr\<close>, \<open>pobj\<close>). \<open>json_parse_js\<close> is the parse
    of the form field as the controller receives it: \<open>undefined\<close> becomes the
    text \<open>"undefined"\<close>, and objects keep the first position and last value of
    a repeated key.
  \<^item> \<open>AddProduct\<close>: the form state \<open>page\<close>, its inputs, the lookup callback
    \<open>handleBarcodeLookup_done\<close> (each property read may throw, and updates
    already made before a throw stay), and \<open>productData\<close>, the submit
    request and the answer handling.
  \<^item> \<open>Scanner\<close>: the scanner's effect with its stale closures. The effect
    captures \<open>isScanning\<close> and \<open>stream\<close> when it runs (\<open>eff_scanning\<close>,
    \<open>eff_stream\<close>). Camera requests and decode loops are outstanding
    callbacks that carry the stream they captured. \<open>page_step\<close> is the
    page's step function over all its controls and callbacks, and
    \<open>page_reach\<close> is reachability. \<open>page_run\<close> runs the page over a
    sequence of events. Leaving the page is the event \<open>Unmount\<close>. It runs the
    last effect cleanup (\<open>unmount\<close>), and callbacks still outstanding then
    run against the unmounted page (\<open>cameraGranted_unmounted\<close>,
    \<open>cameraDenied_unmounted\<close>, \<open>lookupDone_unmounted\<close>). A live stream is
    \<open>orphaned\<close> when no state, closure or outstanding callback refers to it
    any more.
  \<^item> \<open>Submission\<close>: the form, the wire and the controller composed.
    \<open>node_env\<close> is the controller's environment with the modelled
    \<open>JSON.parse\<close>.
  \<^item> \<open>ConcurrentEdits\<close>: two sessions of the list view (\<open>sys2\<close>, one
    \<open>view\<close> per seller) on one shared server. \<open>step2\<close> runs one event of
    one session through \<open>view_step\<close>, so any interleaving of the two
    sellers' round trips is a run. \<open>reach2\<close> is reachability, with both
    sessions' \<open>view_inv\<close> and distinct edit keys as its invariant.
  \<^item> This theory: the properties that span the form, the network, the
    controller and the product table.

  \<^bold>\<open>Lemma groups.\<close>
  \<^item> Controller: the image count of a created product (C1); the image frame
    of an update without files (C2); replacement of images by an update with
    files (C3); the delete and stock answers (C4--C9), including the
    uploads orphaned when an upload fails; and the store invariant kept by
    every route (C22); and \<open>productById\<close> against the abstract map (C36).
  \<^item> ProductListView: invariants of the reachable views (C10), agreement
    with the server after a successful action (C11), and image
    preservation by the edit modal (C12).
  \<^item> AddProduct and Scanner: the lookup branches (C13, C14), the
    description round trip (C15), and the camera and decode-loop
    lifecycle (C16--C20).
  \<^item> Here: a successful submit end to end (C21), and from the form to the
    seller's table: after the refetch the new product is the last row,
    showing the typed fields (C40).
  \<^item> Controller: refinement of \<open>addProduct\<close> against the abstract map (C23).
  \<^item> Submission: the wire round trip of the form's payload (C24), the parse
    of the form field always returns (C25), and the stored document holds
    the form's fields (C26).
  \<^item> JsonParse: every value \<open>JSON.parse\<close> gives the controller is
    canonical, with distinct keys in every object (C39); this is the type
    of the values the controller works on.
  \<^item> Scanner: a stream granted after a quick restart is never released
    by any continuation (C27). The scanner can always come to rest (C28).
    The form holds at most four file slots (C29). Inductive reachability
    equals the states of runs (C30). Leaving the page while scanning (C34)
    or before the camera answers (C35) leaves a camera stream on for good.
    A submission uploads exactly the images the slots preview (C37).
  \<^item> ProductTable: the refetched table shows the store row by row, with
    distinct keys (C31). No run of the list view makes the table throw
    (C32). A raw-body update that sets \<open>image\<close> to \<open>null\<close> succeeds and then
    breaks the table (C33). A stock toggle whose answer is lost leaves the
    rows stale until the next refetch (\<open>lost_toggle_keeps_rows\<close>).
  \<^item> ConcurrentEdits: an acknowledged save of the edit modal stores the
    modal's fields in the selected document. Across two sessions the last
    save wins, so a stale modal reverts an acknowledged edit (C38).

  \<^bold>\<open>Bounds and fuel.\<close>
  \<^item> JSON numbers are unbounded integers (\<open>int\<close>); the code does no
    arithmetic on them.
  \<^item> ObjectIds come from a counter. Theorems that create a document
    assume the counter is below \<open>16 ^ 24\<close>, the number of 24-digit hex
    ids, so the fresh id is new.
  \<^item> The parser is the only recursion that is not structural. It runs on
    fuel: \<open>json_parse_text\<close> gives \<open>pv\<close> the fuel \<open>2 * length s + 1\<close>.
    \<open>parse_total\<close> shows that this fuel never runs out, since each call
    either consumes input or is one of at most two calls per character.
    \<open>pv_mono\<close> shows that more fuel gives the same answer. The running
    out of fuel is kept as a value (\<open>None\<close>, reported as the engine's
    stack overflow), and \<open>json_parse_terminates\<close> excludes it.
  \<^item> The decode loop is a set of outstanding callbacks, not a recursion.
  \<^item> The form has four file slots (C29).

  \<^bold>\<open>Not modelled.\<close>
  \<^item> The Express routing, middleware and authentication, which are outside
    the three files.
  \<^item> The AppContext \<open>fetchProducts\<close>, which is modelled from its documented
    behaviour as a synchronous read (\<open>fetch_products\<close>).
  \<^item> The markup of the form's text inputs and of the edit modal, and the
    styling. The product table and the image slots' previews are modelled.
  \<^item> In the parser:
    \<^item> numbers other than integers, which the form never sends;
    \<^item> unicode escapes above 255;
    \<^item> the positions in its error messages.
  \<^item> Timing: concurrent requests are modelled as an interleaving of
    complete round trips (\<open>step2\<close>); two sessions show every effect of
    sharing the server, so more sessions are not modelled.
  \<^item> What the map leaves out of the three files is imports, comments and
    the closing markup of the components; every handler, hook, effect,
    callback and rendered control is modelled.
\<close>

text \<open>
  C21. End to end, form to database: when submitting the Add Product form
  over a delivered request ends in a success toast, the server stored
  exactly one new document, uploaded one image per attached file slot,
  set the document's \<open>image\<close> to exactly those URLs, and the page shows
  the controller's message ''Product Added'' and has its form reset.
\<close>

theorem submit_success_adds_product:
  assumes "page_step env st (Submit Delivered) = Some st'"
    "\<exists>m. page_toasts (pg st') = page_toasts (pg st) @ [ToastSuccess m]"
  shows "\<exists>urls i d. length urls = length (attached (pg st)) \<and>
           hosted (psrv st') = hosted (psrv st) @ urls \<and>
           docs (db (psrv st')) = docs (db (psrv st)) @ [(i, d)] \<and>
           jget d ''image'' = Some (image_val urls) \<and>
           pg st' = reset_form (toast_page [ToastSuccess ''Product Added''] (pg st))"
proof -
  obtain pd where "productData (pg st) = Inr pd"
    and a: "addProduct env (submit_req pd (pg st)) (psrv st) = (psrv st', respond True ''Product Added'')"
    and r: "pg st' = reset_form (toast_page [ToastSuccess ''Product Added''] (pg st))"
    using assms by (rule submit_success_cases)
  have "files (submit_req pd (pg st)) = Some (attached (pg st))" by (simp add: submit_req_def)
  from addProduct_success_shape [OF a this] r show ?thesis by blast
qed

theorem submit_success_adds_product_witness:
  "\<exists>st'. page_step sample_env \<lparr>psrv = sample_server, pg = sample_filled\<rparr> (Submit Delivered) = Some st' \<and>
     (\<exists>m. page_toasts (pg st') = page_toasts sample_filled @ [ToastSuccess m]) \<and>
     (\<exists>urls i d. length urls = length (attached sample_filled) \<and>
        hosted (psrv st') = hosted sample_server @ urls \<and>
        docs (db (psrv st')) = docs (db sample_server) @ [(i, d)] \<and>
        jget d ''image'' = Some (image_val urls) \<and>
        pg st' = reset_form (toast_page [ToastSuccess ''Product Added''] sample_filled))"
proof -
  define st0 where "st0 = \<lparr>psrv = sample_server, pg = sample_filled\<rparr>"
  define st' where "st' = onSubmit sample_env Delivered st0"
  have a: "page_step sample_env st0 (Submit Delivered) = Some st'"
    by (simp add: st'_def st0_def form_valid_def sample_filled_def)
  have pd: "productData sample_filled = Inr (JObj [(''name'', JStr ''Milk''),
      (''description'', JArr [JStr ''Fresh'', JStr ''1 litre'']), (''category'', JStr []),
      (''price'', JStr ''50''), (''offerPrice'', JStr ''45''), (''quantity'', JStr ''10''),
      (''barcode'', JStr [])])"
    by (simp add: productData_def sample_filled_def page_init_def)
  define PD where "PD = JObj [(''name'', JStr ''Milk''),
      (''description'', JArr [JStr ''Fresh'', JStr ''1 litre'']), (''category'', JStr []),
      (''price'', JStr ''50''), (''offerPrice'', JStr ''45''), (''quantity'', JStr ''10''),
      (''barcode'', JStr [])]"
  have b1: "st' = \<lparr>psrv = fst (addProduct sample_env (submit_req PD sample_filled) sample_server),
                   pg = submit_done (Inr (snd (addProduct sample_env (submit_req PD sample_filled) sample_server)))
                          sample_filled\<rparr>"
    using pd by (simp add: st'_def st0_def PD_def onSubmit_def round_trip_delivered split: prod.split)
  have b2: "snd (addProduct sample_env (submit_req PD sample_filled) sample_server) = respond True ''Product Added''"
    by (simp add: submit_req_def attached_def sample_filled_def sample_defs eval_defs)
  have b: "page_toasts (pg st') = page_toasts sample_filled @ [ToastSuccess ''Product Added'']"
    using b1 b2 by (simp add: submit_done_def reset_form_def toast_page_def)
  have "\<exists>m. page_toasts (pg st') = page_toasts (pg st0) @ [ToastSuccess m]"
    using b by (simp add: st0_def)
  from submit_success_adds_product [OF a this] a b show ?thesis by (auto simp: st0_def)
qed


text \<open>
  C40. End to end, form to table: when a delivered submit of a form whose
  text fields are strings ends in a success toast, then, from a consistent
  store the table can show, the seller's next refetch shows the old rows
  unchanged followed by one new row whose cells are the typed name,
  category, currency with offer price, and quantity, and which shows an
  image exactly when a file was attached.
\<close>

theorem submit_then_table_row:
  assumes "page_step (node_env up vd vu) st (Submit Delivered) = Some st'"
    "\<exists>m. page_toasts (pg st') = page_toasts (pg st) @ [ToastSuccess m]"
    "store_inv (db (psrv st))" "next_id (db (psrv st)) < 16 ^ 24" "store_renders (db (psrv st))"
    "form_name (pg st) = JStr nm" "form_category (pg st) = JStr cat"
    "form_offerPrice (pg st) = JStr op" "form_quantity (pg st) = JStr q"
  shows "\<exists>r. render_table cur (fetch_products env (psrv st') v) = Inr (map (doc_row cur) (docs (db (psrv st))) @ [r]) \<and>
             row_cells r = [nm, cat, cur @ op, q] \<and> (row_src r = None \<longleftrightarrow> attached (pg st) = [])"
proof -
  obtain pd where "productData (pg st) = Inr pd"
    and a: "addProduct (node_env up vd vu) (submit_req pd (pg st)) (psrv st) = (psrv st', respond True ''Product Added'')"
    using assms(1,2) by (rule submit_success_cases)
  from submit_doc_fields [OF assms(1,2)] obtain i d urls where
    dd: "docs (db (psrv st')) = docs (db (psrv st)) @ [(i, d)]"
    and f: "jget d ''name'' = Some (JStr nm)" "jget d ''category'' = Some (JStr cat)"
      "jget d ''offerPrice'' = Some (JStr op)" "jget d ''quantity'' = Some (JStr q)"
    and u: "length urls = length (attached (pg st))" "jget d ''image'' = Some (image_val urls)"
    using assms(6-9) by auto
  have inv: "store_inv (db (psrv st'))"
    using addProduct_store_inv [OF assms(3,4), of "node_env up vd vu" "submit_req pd (pg st)"] a by simp
  have "doc_renders d"
    using f u by (simp add: doc_renders_def render_keys_def field_ok_def child_ok_def child_def image_val_def)
  with assms(5) dd have "store_renders (db (psrv st'))" by (simp add: store_renders_def)
  with inv have "render_rows cur (map doc_json (docs (db (psrv st')))) = Inr (map (doc_row cur) (docs (db (psrv st'))))"
    by (intro render_rows_docs [of "next_id (db (psrv st'))"]) (simp_all add: store_inv_def store_renders_def)
  moreover have "row_cells (doc_row cur (i, d)) = [nm, cat, cur @ op, q]"
    using f by (simp add: doc_row_def child_def)
  moreover have "row_src (doc_row cur (i, d)) = None \<longleftrightarrow> attached (pg st) = []"
    using u by (cases urls) (auto simp: doc_row_def image_val_def)
  ultimately show ?thesis using dd by (simp add: render_table_def)
qed

theorem submit_then_table_row_witness:
  "\<exists>st'. page_step sample_node_env \<lparr>psrv = sample_server, pg = sample_filled\<rparr> (Submit Delivered) = Some st' \<and>
     (\<exists>m. page_toasts (pg st') = page_toasts sample_filled @ [ToastSuccess m]) \<and>
     store_inv (db sample_server) \<and> next_id (db sample_server) < 16 ^ 24 \<and> store_renders (db sample_server) \<and>
     (\<exists>r. render_table ''$'' (fetch_products sample_node_env (psrv st') view_init) =
        Inr (map (doc_row ''$'') (docs (db sample_server)) @ [r]) \<and>
        row_cells r = [''Milk'', [], ''$45'', ''10''] \<and> row_src r \<noteq> None)"
proof -
  define st' where "st' = onSubmit sample_node_env Delivered \<lparr>psrv = sample_server, pg = sample_filled\<rparr>"
  from sample_submit have a: "page_step sample_node_env \<lparr>psrv = sample_server, pg = sample_filled\<rparr> (Submit Delivered) =
      Some st'" by (simp add: st'_def)
  have b: "\<exists>m. page_toasts (pg st') = page_toasts (pg \<lparr>psrv = sample_server, pg = sample_filled\<rparr>) @ [ToastSuccess m]"
    using sample_submit by (simp add: st'_def)
  have s: "store_inv (db (psrv \<lparr>psrv = sample_server, pg = sample_filled\<rparr>))"
    "next_id (db (psrv \<lparr>psrv = sample_server, pg = sample_filled\<rparr>)) < 16 ^ 24"
    "store_renders (db (psrv \<lparr>psrv = sample_server, pg = sample_filled\<rparr>))"
    by (simp_all add: sample_server_def store_inv_def doc_wf_def canonical_def keys_def product_paths_def
        store_renders_def doc_renders_def render_keys_def field_ok_def child_ok_def child_def image_val_def)
  have f: "form_name (pg \<lparr>psrv = sample_server, pg = sample_filled\<rparr>) = JStr ''Milk''"
    "form_category (pg \<lparr>psrv = sample_server, pg = sample_filled\<rparr>) = JStr []"
    "form_offerPrice (pg \<lparr>psrv = sample_server, pg = sample_filled\<rparr>) = JStr ''45''"
    "form_quantity (pg \<lparr>psrv = sample_server, pg = sample_filled\<rparr>) = JStr ''10''"
    by (simp_all add: sample_filled_def page_init_def)
  have t: "attached (pg \<lparr>psrv = sample_server, pg = sample_filled\<rparr>) \<noteq> []"
    by (simp add: attached_def sample_filled_def)
  from submit_then_table_row [OF a [unfolded sample_node_env_def] b s f, of "''$''" sample_node_env view_init] t a b s
  show ?thesis by auto
qed

end
